theory Spec2Isabelle
  imports Main "HOL-Library.Word"
begin

unbundle bit_operations_syntax

section \<open>Constants of the protocol engine\<close>

text \<open>
  The engine of \<^verbatim>\<open>modbus.cpp\<close> speaks Modbus over a serial line (RTU) or over
  TCP. Bytes are \<^typ>\<open>8 word\<close>, the C type \<^verbatim>\<open>int\<close> is modelled by \<^typ>\<open>int\<close>
  (the lengths, addresses and quantities computed below stay far inside the 32-bit
  range), the 16-bit and 32-bit values that the code assembles from bytes are words of
  that width, and every buffer is the list of the bytes of the C array. A read or a write
  outside an array is undefined in C; the theorems state the array sizes they rely on.
\<close>

type_synonym byte = "8 word"

datatype type_com_t = RTU | TCP

text \<open>
  Modelled from the spec: the header \<^verbatim>\<open>modbus.h\<close> is not among the sources. The
  frame geometry is the one of the specification's frame table: a header of 1 byte (RTU)
  or 7 bytes (TCP), a checksum of 2 bytes (RTU) or none (TCP), at most 256 (RTU) or 260
  (TCP) bytes in a frame. A response header is the request header and the function byte;
  an exception response in RTU is 5 bytes long; the broadcast address is 0. The sentinel
  for an undefined length is \<open>- 1\<close>, as in the libmodbus header that the file is
  derived from; it is not a length.
\<close>

definition HEADER_LENGTH_RTU :: int where "HEADER_LENGTH_RTU = 1"
definition HEADER_LENGTH_TCP :: int where "HEADER_LENGTH_TCP = 7"
definition CHECKSUM_LENGTH_RTU :: int where "CHECKSUM_LENGTH_RTU = 2"
definition CHECKSUM_LENGTH_TCP :: int where "CHECKSUM_LENGTH_TCP = 0"
definition MAX_ADU_LENGTH_RTU :: int where "MAX_ADU_LENGTH_RTU = 256"
definition MAX_ADU_LENGTH_TCP :: int where "MAX_ADU_LENGTH_TCP = 260"
definition PRESET_RESPONSE_LENGTH_RTU :: int where "PRESET_RESPONSE_LENGTH_RTU = 2"
definition PRESET_RESPONSE_LENGTH_TCP :: int where "PRESET_RESPONSE_LENGTH_TCP = 8"
definition EXCEPTION_RESPONSE_LENGTH_RTU :: int where "EXCEPTION_RESPONSE_LENGTH_RTU = 5"
definition MSG_LENGTH_UNDEFINED :: int where "MSG_LENGTH_UNDEFINED = - 1"
definition MODBUS_BROADCAST_ADDRESS :: int where "MODBUS_BROADCAST_ADDRESS = 0"

fun TAB_HEADER_LENGTH :: "type_com_t \<Rightarrow> int" where
  "TAB_HEADER_LENGTH RTU = HEADER_LENGTH_RTU"
| "TAB_HEADER_LENGTH TCP = HEADER_LENGTH_TCP"

fun TAB_CHECKSUM_LENGTH :: "type_com_t \<Rightarrow> int" where
  "TAB_CHECKSUM_LENGTH RTU = CHECKSUM_LENGTH_RTU"
| "TAB_CHECKSUM_LENGTH TCP = CHECKSUM_LENGTH_TCP"

fun TAB_MAX_ADU_LENGTH :: "type_com_t \<Rightarrow> int" where
  "TAB_MAX_ADU_LENGTH RTU = MAX_ADU_LENGTH_RTU"
| "TAB_MAX_ADU_LENGTH TCP = MAX_ADU_LENGTH_TCP"

text \<open>
  Modelled from the spec: the function codes of the specification's list of supported
  function codes, under the names that \<^verbatim>\<open>modbus.cpp\<close> uses for them.
\<close>

definition FC_READ_COIL_STATUS :: int where "FC_READ_COIL_STATUS = 0x01"
definition FC_READ_INPUT_STATUS :: int where "FC_READ_INPUT_STATUS = 0x02"
definition FC_READ_HOLDING_REGISTERS :: int where "FC_READ_HOLDING_REGISTERS = 0x03"
definition FC_READ_INPUT_REGISTERS :: int where "FC_READ_INPUT_REGISTERS = 0x04"
definition FC_FORCE_SINGLE_COIL :: int where "FC_FORCE_SINGLE_COIL = 0x05"
definition FC_PRESET_SINGLE_REGISTER :: int where "FC_PRESET_SINGLE_REGISTER = 0x06"
definition FC_READ_EXCEPTION_STATUS :: int where "FC_READ_EXCEPTION_STATUS = 0x07"
definition FC_FORCE_MULTIPLE_COILS :: int where "FC_FORCE_MULTIPLE_COILS = 0x0F"
definition FC_PRESET_MULTIPLE_REGISTERS :: int where "FC_PRESET_MULTIPLE_REGISTERS = 0x10"
definition FC_REPORT_SLAVE_ID :: int where "FC_REPORT_SLAVE_ID = 0x11"

text \<open>
  Modelled from the spec: the error sentinels are macros of the missing header. The
  specification says that they are negative; the exception codes are the glossary's, negated
  (\<^verbatim>\<open>response_exception\<close> stores \<^verbatim>\<open>-exception_code\<close> as ``positive exception
  code''), and the local sentinels carry the values of the libmodbus header this file
  derives from, below every negated exception code.
\<close>

definition ILLEGAL_FUNCTION :: int where "ILLEGAL_FUNCTION = - 0x01"
definition ILLEGAL_DATA_ADDRESS :: int where "ILLEGAL_DATA_ADDRESS = - 0x02"
definition ILLEGAL_DATA_VALUE :: int where "ILLEGAL_DATA_VALUE = - 0x03"

definition INVALID_DATA :: int where "INVALID_DATA = - 0x10"
definition INVALID_CRC :: int where "INVALID_CRC = - 0x11"
definition INVALID_EXCEPTION_CODE :: int where "INVALID_EXCEPTION_CODE = - 0x12"
definition SELECT_TIMEOUT :: int where "SELECT_TIMEOUT = - 0x13"
definition SELECT_FAILURE :: int where "SELECT_FAILURE = - 0x14"
definition SOCKET_FAILURE :: int where "SOCKET_FAILURE = - 0x15"
definition CONNECTION_CLOSED :: int where "CONNECTION_CLOSED = - 0x16"
definition MB_EXCEPTION :: int where "MB_EXCEPTION = - 0x17"

text \<open>The size of the table of error messages, a constant of \<^verbatim>\<open>modbus.cpp\<close>.\<close>

definition NB_TAB_ERROR_MSG :: int where "NB_TAB_ERROR_MSG = 12"

text \<open>
  Modelled from the spec: the remaining macros of the missing header. A request header is
  6 bytes long in RTU and 12 in TCP, a register read asks for at most 125 registers, and a
  coil is bit-valued: \<open>ON\<close> is 1 and \<open>OFF\<close> is 0.
\<close>

definition PRESET_QUERY_LENGTH_RTU :: int where "PRESET_QUERY_LENGTH_RTU = 6"
definition PRESET_QUERY_LENGTH_TCP :: int where "PRESET_QUERY_LENGTH_TCP = 12"
definition MAX_REGISTERS :: int where "MAX_REGISTERS = 125"
definition ON :: byte where "ON = 1"
definition OFF :: byte where "OFF = 0"

section \<open>The CRC engine\<close>

text \<open>The two lookup tables of \<^verbatim>\<open>modbus.cpp\<close>, 256 entries each.\<close>

definition table_crc_hi :: "byte list" where
  "table_crc_hi = [
    0x00, 0xC1, 0x81, 0x40, 0x01, 0xC0, 0x80, 0x41, 0x01, 0xC0,
    0x80, 0x41, 0x00, 0xC1, 0x81, 0x40, 0x01, 0xC0, 0x80, 0x41,
    0x00, 0xC1, 0x81, 0x40, 0x00, 0xC1, 0x81, 0x40, 0x01, 0xC0,
    0x80, 0x41, 0x01, 0xC0, 0x80, 0x41, 0x00, 0xC1, 0x81, 0x40,
    0x00, 0xC1, 0x81, 0x40, 0x01, 0xC0, 0x80, 0x41, 0x00, 0xC1,
    0x81, 0x40, 0x01, 0xC0, 0x80, 0x41, 0x01, 0xC0, 0x80, 0x41,
    0x00, 0xC1, 0x81, 0x40, 0x01, 0xC0, 0x80, 0x41, 0x00, 0xC1,
    0x81, 0x40, 0x00, 0xC1, 0x81, 0x40, 0x01, 0xC0, 0x80, 0x41,
    0x00, 0xC1, 0x81, 0x40, 0x01, 0xC0, 0x80, 0x41, 0x01, 0xC0,
    0x80, 0x41, 0x00, 0xC1, 0x81, 0x40, 0x00, 0xC1, 0x81, 0x40,
    0x01, 0xC0, 0x80, 0x41, 0x01, 0xC0, 0x80, 0x41, 0x00, 0xC1,
    0x81, 0x40, 0x01, 0xC0, 0x80, 0x41, 0x00, 0xC1, 0x81, 0x40,
    0x00, 0xC1, 0x81, 0x40, 0x01, 0xC0, 0x80, 0x41, 0x01, 0xC0,
    0x80, 0x41, 0x00, 0xC1, 0x81, 0x40, 0x00, 0xC1, 0x81, 0x40,
    0x01, 0xC0, 0x80, 0x41, 0x00, 0xC1, 0x81, 0x40, 0x01, 0xC0,
    0x80, 0x41, 0x01, 0xC0, 0x80, 0x41, 0x00, 0xC1, 0x81, 0x40,
    0x00, 0xC1, 0x81, 0x40, 0x01, 0xC0, 0x80, 0x41, 0x01, 0xC0,
    0x80, 0x41, 0x00, 0xC1, 0x81, 0x40, 0x01, 0xC0, 0x80, 0x41,
    0x00, 0xC1, 0x81, 0x40, 0x00, 0xC1, 0x81, 0x40, 0x01, 0xC0,
    0x80, 0x41, 0x00, 0xC1, 0x81, 0x40, 0x01, 0xC0, 0x80, 0x41,
    0x01, 0xC0, 0x80, 0x41, 0x00, 0xC1, 0x81, 0x40, 0x01, 0xC0,
    0x80, 0x41, 0x00, 0xC1, 0x81, 0x40, 0x00, 0xC1, 0x81, 0x40,
    0x01, 0xC0, 0x80, 0x41, 0x01, 0xC0, 0x80, 0x41, 0x00, 0xC1,
    0x81, 0x40, 0x00, 0xC1, 0x81, 0x40, 0x01, 0xC0, 0x80, 0x41,
    0x00, 0xC1, 0x81, 0x40, 0x01, 0xC0, 0x80, 0x41, 0x01, 0xC0,
    0x80, 0x41, 0x00, 0xC1, 0x81, 0x40]"

definition table_crc_lo :: "byte list" where
  "table_crc_lo = [
    0x00, 0xC0, 0xC1, 0x01, 0xC3, 0x03, 0x02, 0xC2, 0xC6, 0x06,
    0x07, 0xC7, 0x05, 0xC5, 0xC4, 0x04, 0xCC, 0x0C, 0x0D, 0xCD,
    0x0F, 0xCF, 0xCE, 0x0E, 0x0A, 0xCA, 0xCB, 0x0B, 0xC9, 0x09,
    0x08, 0xC8, 0xD8, 0x18, 0x19, 0xD9, 0x1B, 0xDB, 0xDA, 0x1A,
    0x1E, 0xDE, 0xDF, 0x1F, 0xDD, 0x1D, 0x1C, 0xDC, 0x14, 0xD4,
    0xD5, 0x15, 0xD7, 0x17, 0x16, 0xD6, 0xD2, 0x12, 0x13, 0xD3,
    0x11, 0xD1, 0xD0, 0x10, 0xF0, 0x30, 0x31, 0xF1, 0x33, 0xF3,
    0xF2, 0x32, 0x36, 0xF6, 0xF7, 0x37, 0xF5, 0x35, 0x34, 0xF4,
    0x3C, 0xFC, 0xFD, 0x3D, 0xFF, 0x3F, 0x3E, 0xFE, 0xFA, 0x3A,
    0x3B, 0xFB, 0x39, 0xF9, 0xF8, 0x38, 0x28, 0xE8, 0xE9, 0x29,
    0xEB, 0x2B, 0x2A, 0xEA, 0xEE, 0x2E, 0x2F, 0xEF, 0x2D, 0xED,
    0xEC, 0x2C, 0xE4, 0x24, 0x25, 0xE5, 0x27, 0xE7, 0xE6, 0x26,
    0x22, 0xE2, 0xE3, 0x23, 0xE1, 0x21, 0x20, 0xE0, 0xA0, 0x60,
    0x61, 0xA1, 0x63, 0xA3, 0xA2, 0x62, 0x66, 0xA6, 0xA7, 0x67,
    0xA5, 0x65, 0x64, 0xA4, 0x6C, 0xAC, 0xAD, 0x6D, 0xAF, 0x6F,
    0x6E, 0xAE, 0xAA, 0x6A, 0x6B, 0xAB, 0x69, 0xA9, 0xA8, 0x68,
    0x78, 0xB8, 0xB9, 0x79, 0xBB, 0x7B, 0x7A, 0xBA, 0xBE, 0x7E,
    0x7F, 0xBF, 0x7D, 0xBD, 0xBC, 0x7C, 0xB4, 0x74, 0x75, 0xB5,
    0x77, 0xB7, 0xB6, 0x76, 0x72, 0xB2, 0xB3, 0x73, 0xB1, 0x71,
    0x70, 0xB0, 0x50, 0x90, 0x91, 0x51, 0x93, 0x53, 0x52, 0x92,
    0x96, 0x56, 0x57, 0x97, 0x55, 0x95, 0x94, 0x54, 0x9C, 0x5C,
    0x5D, 0x9D, 0x5F, 0x9F, 0x9E, 0x5E, 0x5A, 0x9A, 0x9B, 0x5B,
    0x99, 0x59, 0x58, 0x98, 0x88, 0x48, 0x49, 0x89, 0x4B, 0x8B,
    0x8A, 0x4A, 0x4E, 0x8E, 0x8F, 0x4F, 0x8D, 0x4D, 0x4C, 0x8C,
    0x44, 0x84, 0x85, 0x45, 0x87, 0x47, 0x46, 0x86, 0x82, 0x42,
    0x43, 0x83, 0x41, 0x81, 0x80, 0x40]"

text \<open>
  \<^verbatim>\<open>crc16\<close>: the loop \<^verbatim>\<open>while (buffer_length--)\<close> consumes the buffer byte by
  byte; \<open>crc16_loop\<close> is that loop on the bytes it visits, \<open>crc16\<close> runs it on the
  first \<open>buffer_length\<close> bytes and packs the two halves into the 16-bit result.
\<close>

fun crc16_loop :: "byte \<Rightarrow> byte \<Rightarrow> byte list \<Rightarrow> byte \<times> byte" where
  "crc16_loop crc_hi crc_lo [] = (crc_hi, crc_lo)"
| "crc16_loop crc_hi crc_lo (b # buffer) =
     (let i = unat (crc_hi XOR b)
      in crc16_loop (crc_lo XOR table_crc_hi ! i) (table_crc_lo ! i) buffer)"

definition crc16 :: "byte list \<Rightarrow> nat \<Rightarrow> 16 word" where
  "crc16 buffer buffer_length =
     (case crc16_loop 0xFF 0xFF (take buffer_length buffer) of
        (crc_hi, crc_lo) \<Rightarrow> push_bit 8 (ucast crc_hi) OR ucast crc_lo)"

text \<open>
  \<^verbatim>\<open>check_crc16\<close>: the CRC of the first \<open>msg_length - 2\<close> bytes (the argument of
  \<^verbatim>\<open>crc16\<close> is converted to \<^verbatim>\<open>uint16_t\<close>) against the last two bytes, high byte
  first. The call of \<^verbatim>\<open>error_treat\<close> on a mismatch prints and may flush the
  transport; it does not change the result.
\<close>

definition check_crc16 :: "byte list \<Rightarrow> int \<Rightarrow> int" where
  "check_crc16 msg msg_length =
     (let crc_calc = crc16 msg (nat ((msg_length - 2) mod 65536));
          crc_received = (push_bit 8 (ucast (msg ! nat (msg_length - 2)))
                          OR ucast (msg ! nat (msg_length - 1)) :: 16 word)
      in if crc_calc = crc_received then msg_length else INVALID_CRC)"

section \<open>Buffers\<close>

text \<open>
  \<open>byte_at buf i\<close> is the C expression \<^verbatim>\<open>buf[i]\<close> of an \<^verbatim>\<open>uint8_t\<close> array, promoted
  to \<^verbatim>\<open>int\<close>. \<open>memcpy dest d src s n\<close> is \<^verbatim>\<open>memcpy (dest + d, src + s, n)\<close>, and
  \<open>store_bytes buf p bs\<close> is what \<^verbatim>\<open>read\<close> and \<^verbatim>\<open>recv\<close> do with the bytes
  \<open>bs\<close> they deliver at \<^verbatim>\<open>buf + p\<close>. In C an index or a count beyond the arrays, and
  a negative count, are undefined; here a list is read and written as far as it reaches.
\<close>

definition byte_at :: "byte list \<Rightarrow> int \<Rightarrow> int" where
  "byte_at buf i = uint (buf ! nat i)"

definition memcpy :: "byte list \<Rightarrow> nat \<Rightarrow> byte list \<Rightarrow> nat \<Rightarrow> nat \<Rightarrow> byte list" where
  "memcpy dest d src s n = take d dest @ take n (drop s src) @ drop (d + n) dest"

definition store_bytes :: "byte list \<Rightarrow> nat \<Rightarrow> byte list \<Rightarrow> byte list" where
  "store_bytes buf p bs = take p buf @ bs @ drop (p + length bs) buf"

section \<open>Framing\<close>

text \<open>
  The session parameters that the codec reads: the unit identifier and the transport.
  The descriptor, the debug flag and the error-handling policy steer printing and the
  transport only. The variables \<^verbatim>\<open>function\<close> and \<^verbatim>\<open>slave\<close> of the source are
  \<open>fn\<close> and \<open>slv\<close> here, and the fields of \<^verbatim>\<open>sft_t\<close> carry its name in front.
\<close>

record modbus_param_t =
  slave :: int
  type_com :: type_com_t

record sft_t =
  sft_slave :: int
  sft_function :: int
  sft_t_id :: int

text \<open>
  \<^verbatim>\<open>compute_response_length\<close>. The result type of the source is \<^verbatim>\<open>unsigned int\<close>;
  its only caller stores it in an \<^verbatim>\<open>int\<close>, where \<open>MSG_LENGTH_UNDEFINED\<close> is itself
  again. The cases of the inner \<^verbatim>\<open>switch (data_type)\<close> are kept one by one.
\<close>

definition compute_response_length :: "type_com_t \<Rightarrow> byte list \<Rightarrow> byte \<Rightarrow> int" where
  "compute_response_length tc query data_type =
     (let offset = TAB_HEADER_LENGTH tc;
          fc = byte_at query offset;
          nb = push_bit 8 (byte_at query (offset + 3)) OR byte_at query (offset + 4)
      in if fc = FC_READ_COIL_STATUS \<or> fc = FC_READ_INPUT_STATUS then
           (2 + (nb div 8) + (if nb mod 8 \<noteq> 0 then 1 else 0))
             + offset + TAB_CHECKSUM_LENGTH tc
         else if fc = FC_READ_HOLDING_REGISTERS \<or> fc = FC_READ_INPUT_REGISTERS then
           (if data_type = 0 \<or> data_type = 1 then 2 + nb
            else if data_type = 2 \<or> data_type = 3 then 2 + 2 * nb
            else if data_type = 4 \<or> data_type = 5 then 2 + 4 * nb
            else if data_type = 6 \<or> data_type = 7 then 2 + 2 * nb
            else if data_type = 8 then 2 + 2 * nb
            else if data_type = 9 then 2 + 2 * nb
            else 2 + 2 * nb)
             + offset + TAB_CHECKSUM_LENGTH tc
         else if fc = FC_READ_EXCEPTION_STATUS then
           3 + offset + TAB_CHECKSUM_LENGTH tc
         else if fc = FC_REPORT_SLAVE_ID then MSG_LENGTH_UNDEFINED
         else 5 + offset + TAB_CHECKSUM_LENGTH tc)"

definition build_query_basis_rtu ::
  "int \<Rightarrow> int \<Rightarrow> int \<Rightarrow> int \<Rightarrow> byte list \<Rightarrow> int \<times> byte list" where
  "build_query_basis_rtu slv fn start_addr nb query =
     (PRESET_QUERY_LENGTH_RTU,
      query[0 := of_int slv, 1 := of_int fn,
            2 := of_int (drop_bit 8 start_addr), 3 := of_int (start_addr AND 0x00ff),
            4 := of_int (drop_bit 8 nb), 5 := of_int (nb AND 0x00ff)])"

text \<open>
  \<^verbatim>\<open>build_query_basis_tcp\<close> owns the static transaction counter \<^verbatim>\<open>t_id\<close>; the model
  takes its value and returns the new one.
\<close>

definition build_query_basis_tcp ::
  "16 word \<Rightarrow> int \<Rightarrow> int \<Rightarrow> int \<Rightarrow> int \<Rightarrow> byte list \<Rightarrow> int \<times> byte list \<times> 16 word" where
  "build_query_basis_tcp t_id0 slv fn start_addr nb query =
     (let t_id = (if t_id0 < 0xFFFF then t_id0 + 1 else 0)
      in (PRESET_QUERY_LENGTH_TCP,
          query[0 := ucast (drop_bit 8 t_id), 1 := ucast (t_id AND 0x00ff),
                2 := 0, 3 := 0,
                6 := of_int slv, 7 := of_int fn,
                8 := of_int (drop_bit 8 start_addr), 9 := of_int (start_addr AND 0x00ff),
                10 := of_int (drop_bit 8 nb), 11 := of_int (nb AND 0x00ff)],
          t_id))"

definition build_query_basis ::
  "modbus_param_t \<Rightarrow> 16 word \<Rightarrow> int \<Rightarrow> int \<Rightarrow> int \<Rightarrow> byte list
     \<Rightarrow> int \<times> byte list \<times> 16 word" where
  "build_query_basis mb_param t_id fn start_addr nb query =
     (if type_com mb_param = RTU then
        (case build_query_basis_rtu (slave mb_param) fn start_addr nb query of
           (n, query') \<Rightarrow> (n, query', t_id))
      else build_query_basis_tcp t_id (slave mb_param) fn start_addr nb query)"

definition build_response_basis_rtu :: "sft_t \<Rightarrow> byte list \<Rightarrow> int \<times> byte list" where
  "build_response_basis_rtu sft response =
     (PRESET_RESPONSE_LENGTH_RTU,
      response[0 := of_int (sft_slave sft), 1 := of_int (sft_function sft)])"

definition build_response_basis_tcp :: "sft_t \<Rightarrow> byte list \<Rightarrow> int \<times> byte list" where
  "build_response_basis_tcp sft response =
     (PRESET_RESPONSE_LENGTH_TCP,
      response[0 := of_int (drop_bit 8 (sft_t_id sft)), 1 := of_int (sft_t_id sft AND 0x00ff),
               2 := 0, 3 := 0,
               6 := of_int (sft_slave sft), 7 := of_int (sft_function sft)])"

definition build_response_basis :: "type_com_t \<Rightarrow> sft_t \<Rightarrow> byte list \<Rightarrow> int \<times> byte list" where
  "build_response_basis tc sft response =
     (if tc = RTU then build_response_basis_rtu sft response
      else build_response_basis_tcp sft response)"

definition set_message_length_tcp :: "byte list \<Rightarrow> int \<Rightarrow> byte list" where
  "set_message_length_tcp msg msg_length =
     (let mbap_length = msg_length - 6
      in msg[4 := of_int (drop_bit 8 mbap_length), 5 := of_int (mbap_length AND 0x00FF)])"

section \<open>Sending\<close>

text \<open>
  \<^verbatim>\<open>modbus_send\<close> completes the frame in place (the CRC behind it in RTU, the MBAP
  length in TCP) and hands it to \<^verbatim>\<open>write\<close> or \<^verbatim>\<open>send\<close>. What that call returns
  is the environment's choice, the argument \<open>write_ret\<close>. The result is the return value,
  the buffer as the function leaves it, and the bytes handed to the transport.
\<close>

definition modbus_send ::
  "type_com_t \<Rightarrow> byte list \<Rightarrow> int \<Rightarrow> int \<Rightarrow> int \<times> byte list \<times> byte list" where
  "modbus_send tc query query_length0 write_ret =
     (let (query', query_length) =
            (if tc = RTU then
               (let s_crc = crc16 query (nat (query_length0 mod 65536))
                in (query[nat query_length0 := ucast (drop_bit 8 s_crc),
                          nat (query_length0 + 1) := ucast (s_crc AND 0x00FF)],
                    query_length0 + 2))
             else (set_message_length_tcp query query_length0, query_length0));
          ret = write_ret
      in (if ret = - 1 \<or> ret \<noteq> query_length then SOCKET_FAILURE else ret,
          query', take (nat query_length) query'))"

section \<open>Receiving\<close>

definition compute_query_length_header :: "int \<Rightarrow> int" where
  "compute_query_length_header fn =
     (if fn \<le> FC_FORCE_SINGLE_COIL \<or> fn = FC_PRESET_SINGLE_REGISTER then 4
      else if fn = FC_FORCE_MULTIPLE_COILS \<or> fn = FC_PRESET_MULTIPLE_REGISTERS then 5
      else if fn = FC_REPORT_SLAVE_ID then 1
      else 0)"

definition compute_query_length_data :: "type_com_t \<Rightarrow> byte list \<Rightarrow> int" where
  "compute_query_length_data tc msg =
     (let fn = byte_at msg (TAB_HEADER_LENGTH tc)
      in (if fn = FC_FORCE_MULTIPLE_COILS \<or> fn = FC_PRESET_MULTIPLE_REGISTERS then
            byte_at msg (TAB_HEADER_LENGTH tc + 5)
          else if fn = FC_REPORT_SLAVE_ID then byte_at msg (TAB_HEADER_LENGTH tc + 1)
          else 0)
         + TAB_CHECKSUM_LENGTH tc)"

text \<open>
  The environment of \<^verbatim>\<open>receive_msg\<close>: what each call of \<^verbatim>\<open>select\<close> in the macro
  \<^verbatim>\<open>WAIT_DATA\<close> answers and, when it reports the descriptor readable, what the one
  \<^verbatim>\<open>read\<close> or \<^verbatim>\<open>recv\<close> that follows delivers. \<open>Read_bytes bs\<close> offers the bytes
  \<open>bs\<close>; the call takes at most \<^verbatim>\<open>length_to_read\<close> of them, and taking none is the
  return value 0.
\<close>

datatype read_result = Read_failure | Read_bytes "byte list"

datatype select_result =
    Select_interrupted
  | Select_failed
  | Select_timed_out
  | Select_ready read_result

datatype receive_state = FUNCTION | BYTE | COMPLETE

text \<open>
  The \<^verbatim>\<open>if\<close> and the \<^verbatim>\<open>switch (state)\<close> in the body of the receive loop: from the
  state, the expected length and the bytes received so far to the next state, the next
  expected length and \<^verbatim>\<open>length_to_read\<close>; \<open>None\<close> is the exit with \<open>INVALID_DATA\<close>.
\<close>

definition receive_analyse ::
  "type_com_t \<Rightarrow> receive_state \<Rightarrow> int \<Rightarrow> int \<Rightarrow> byte list
     \<Rightarrow> (receive_state \<times> int \<times> int) option" where
  "receive_analyse tc state msg_length_computed msg_length msg =
     (if msg_length < msg_length_computed then
        Some (state, msg_length_computed, msg_length_computed - msg_length)
      else (case state of
          FUNCTION \<Rightarrow>
            (let length_to_read = compute_query_length_header (byte_at msg (TAB_HEADER_LENGTH tc))
             in Some (BYTE, msg_length_computed + length_to_read, length_to_read))
        | BYTE \<Rightarrow>
            (let length_to_read = compute_query_length_data tc msg
             in if msg_length_computed + length_to_read > TAB_MAX_ADU_LENGTH tc then None
                else Some (COMPLETE, msg_length_computed + length_to_read, length_to_read))
        | COMPLETE \<Rightarrow> Some (COMPLETE, msg_length_computed, 0)))"

text \<open>
  The loop of \<^verbatim>\<open>receive_msg\<close>, one round per answer of the environment: the wait of
  \<^verbatim>\<open>WAIT_DATA\<close> (before the loop and at the end of each round), then the read, then
  the analysis. The result is the return value with the buffer; \<open>None\<close> says that the
  function is still waiting when the answers run out. The timeout branch of the macro
  compares \<^verbatim>\<open>msg_length\<close>, the number of bytes received so far.
\<close>

fun receive_loop ::
  "type_com_t \<Rightarrow> receive_state \<Rightarrow> int \<Rightarrow> int \<Rightarrow> int \<Rightarrow> byte list \<Rightarrow> select_result list
     \<Rightarrow> (int \<times> byte list) option" where
  "receive_loop tc state msg_length_computed length_to_read msg_length msg [] = None"
| "receive_loop tc state msg_length_computed length_to_read msg_length msg
     (Select_interrupted # events) =
     receive_loop tc state msg_length_computed length_to_read msg_length msg events"
| "receive_loop tc state msg_length_computed length_to_read msg_length msg
     (Select_failed # events) = Some (SELECT_FAILURE, msg)"
| "receive_loop tc state msg_length_computed length_to_read msg_length msg
     (Select_timed_out # events) =
     (if msg_length = TAB_HEADER_LENGTH tc + 2 + TAB_CHECKSUM_LENGTH tc
      then Some (MB_EXCEPTION, msg) else Some (SELECT_TIMEOUT, msg))"
| "receive_loop tc state msg_length_computed length_to_read msg_length msg
     (Select_ready Read_failure # events) = Some (SOCKET_FAILURE, msg)"
| "receive_loop tc state msg_length_computed length_to_read msg_length msg
     (Select_ready (Read_bytes bs) # events) =
     (let got = take (nat length_to_read) bs;
          read_ret = int (length got)
      in if read_ret = 0 then Some (CONNECTION_CLOSED, msg)
         else
           (let msg' = store_bytes msg (nat msg_length) got;
                msg_length' = msg_length + read_ret
            in case receive_analyse tc state msg_length_computed msg_length' msg' of
                 None \<Rightarrow> Some (INVALID_DATA, msg')
               | Some (state', msg_length_computed', length_to_read') \<Rightarrow>
                   if length_to_read' > 0 then
                     receive_loop tc state' msg_length_computed' length_to_read'
                       msg_length' msg' events
                   else if tc = RTU then Some (check_crc16 msg' msg_length', msg')
                   else Some (msg_length', msg')))"

text \<open>
  \<^verbatim>\<open>receive_msg\<close>. The argument \<^verbatim>\<open>select_time\<close> only sets the duration of the first
  wait; whether that wait expires is the first answer of the environment.
\<close>

definition receive_msg ::
  "type_com_t \<Rightarrow> int \<Rightarrow> byte list \<Rightarrow> select_result list \<Rightarrow> (int \<times> byte list) option" where
  "receive_msg tc msg_length_computed msg events =
     (if msg_length_computed = MSG_LENGTH_UNDEFINED then
        receive_loop tc FUNCTION (TAB_HEADER_LENGTH tc + 1) (TAB_HEADER_LENGTH tc + 1) 0 msg events
      else
        receive_loop tc COMPLETE msg_length_computed msg_length_computed 0 msg events)"

text \<open>
  Two notions about the answers of the environment, not of the source, in which the
  properties of \<^verbatim>\<open>receive_msg\<close> are stated. \<open>data_only events\<close> says that every answer
  is an interrupted wait or a read that delivers at least one byte, and
  \<open>received events\<close> is the bytes that these reads deliver, in the order of arrival.
\<close>

fun data_only :: "select_result list \<Rightarrow> bool" where
  "data_only [] = True"
| "data_only (Select_interrupted # events) = data_only events"
| "data_only (Select_ready (Read_bytes bs) # events) = (bs \<noteq> [] \<and> data_only events)"
| "data_only (Select_failed # events) = False"
| "data_only (Select_timed_out # events) = False"
| "data_only (Select_ready Read_failure # events) = False"

fun received :: "select_result list \<Rightarrow> byte list" where
  "received [] = []"
| "received (Select_ready (Read_bytes bs) # events) = bs @ received events"
| "received (Select_interrupted # events) = received events"
| "received (Select_failed # events) = received events"
| "received (Select_timed_out # events) = received events"
| "received (Select_ready Read_failure # events) = received events"

text \<open>
  \<^verbatim>\<open>modbus_receive\<close>, in three parts. \<open>modbus_receive_nb_values\<close> is the
  \<^verbatim>\<open>switch (response[offset])\<close> of the branch \<^verbatim>\<open>ret >= 0\<close>, which sets
  \<^verbatim>\<open>query_nb_value\<close> and \<^verbatim>\<open>response_nb_value\<close>. The local
  \<^verbatim>\<open>response_nb_value\<close> is not initialised and the cases for the data types 6 and
  above of a register reply leave it so; \<open>indeterminate\<close> is the value it then holds.
\<close>

definition modbus_receive_nb_values ::
  "type_com_t \<Rightarrow> byte list \<Rightarrow> byte list \<Rightarrow> byte \<Rightarrow> int \<Rightarrow> int \<Rightarrow> int \<times> int" where
  "modbus_receive_nb_values tc query response data_type indeterminate ret =
     (let offset = TAB_HEADER_LENGTH tc;
          fc = byte_at response offset
      in if fc = FC_READ_COIL_STATUS \<or> fc = FC_READ_INPUT_STATUS then
           (let query_nb_value =
                  push_bit 8 (byte_at query (offset + 3)) + byte_at query (offset + 4)
            in ((query_nb_value div 8) + (if query_nb_value mod 8 \<noteq> 0 then 1 else 0),
                byte_at response (offset + 1)))
         else if fc = FC_READ_HOLDING_REGISTERS \<or> fc = FC_READ_INPUT_REGISTERS then
           (push_bit 8 (byte_at query (offset + 3)) + byte_at query (offset + 4),
            (if data_type = 0 \<or> data_type = 1 then byte_at response (offset + 1)
             else if data_type = 2 \<or> data_type = 3 then byte_at response (offset + 1) div 2
             else if data_type = 4 \<or> data_type = 5 then byte_at response (offset + 1) div 4
             else indeterminate))
         else if fc = FC_FORCE_MULTIPLE_COILS \<or> fc = FC_PRESET_MULTIPLE_REGISTERS then
           (push_bit 8 (byte_at query (offset + 3)) + byte_at query (offset + 4),
            push_bit 8 (byte_at response (offset + 3)) OR byte_at response (offset + 4))
         else if fc = FC_REPORT_SLAVE_ID then (ret, ret)
         else (1, 1))"

text \<open>
  \<open>modbus_receive_exception\<close> is the branch \<^verbatim>\<open>ret == MB_EXCEPTION\<close>: the CRC of the
  five bytes in RTU, then the test \<^verbatim>\<open>0x80 + query[offset] == response[offset]\<close> and
  the test of the exception code against the size of the table of messages.
\<close>

definition modbus_receive_exception :: "type_com_t \<Rightarrow> byte list \<Rightarrow> byte list \<Rightarrow> int \<Rightarrow> int" where
  "modbus_receive_exception tc query response ret0 =
     (let offset = TAB_HEADER_LENGTH tc;
          ret = (if tc = RTU then check_crc16 response EXCEPTION_RESPONSE_LENGTH_RTU else ret0)
      in if tc = RTU \<and> ret < 0 then ret
         else if 0x80 + byte_at query offset = byte_at response offset then
           (let exception_code = byte_at response (offset + 1)
            in if exception_code < NB_TAB_ERROR_MSG then - exception_code
               else INVALID_EXCEPTION_CODE)
         else ret)"

text \<open>
  The whole function: the result is the return value with the response buffer. The calls
  of \<^verbatim>\<open>error_treat\<close> print and may flush or reopen the transport; they come last on
  their paths and do not change the result.
\<close>

definition modbus_receive ::
  "type_com_t \<Rightarrow> byte list \<Rightarrow> byte list \<Rightarrow> byte \<Rightarrow> int \<Rightarrow> select_result list
     \<Rightarrow> (int \<times> byte list) option" where
  "modbus_receive tc query response0 data_type indeterminate events =
     (let response_length_computed = compute_response_length tc query data_type
      in case receive_msg tc response_length_computed response0 events of
           None \<Rightarrow> None
         | Some (ret, response) \<Rightarrow>
             if ret \<ge> 0 then
               (case modbus_receive_nb_values tc query response data_type indeterminate ret of
                  (query_nb_value, response_nb_value) \<Rightarrow>
                    if query_nb_value = response_nb_value then Some (response_nb_value, response)
                    else Some (INVALID_DATA, response))
             else if ret = MB_EXCEPTION then
               Some (modbus_receive_exception tc query response ret, response)
             else Some (ret, response))"

text \<open>
  The loop of \<^verbatim>\<open>read_registers\<close> that decodes the values of a reply into
  \<^verbatim>\<open>uint32_t\<close> cells. A \<^verbatim>\<open>case\<close> of the source that does not end in \<^verbatim>\<open>break\<close>
  runs on into the next one: the cases 0, 2 and 4 assign twice.
\<close>

definition be32 :: "byte list \<Rightarrow> int \<Rightarrow> int \<Rightarrow> 32 word" where
  "be32 response offset i =
     push_bit 24 (ucast (response ! nat (offset + 2 + push_bit 2 i)))
       OR push_bit 16 (ucast (response ! nat (offset + 3 + push_bit 2 i)))
       OR push_bit 8 (ucast (response ! nat (offset + 4 + push_bit 2 i)))
       OR ucast (response ! nat (offset + 5 + push_bit 2 i))"

definition be16 :: "byte list \<Rightarrow> int \<Rightarrow> int \<Rightarrow> 16 word" where
  "be16 response offset i =
     push_bit 8 (ucast (response ! nat (offset + 2 + push_bit 1 i)))
       OR ucast (response ! nat (offset + 3 + push_bit 1 i))"

definition read_registers_value ::
  "byte list \<Rightarrow> int \<Rightarrow> byte \<Rightarrow> 32 word list \<Rightarrow> int \<Rightarrow> 32 word list" where
  "read_registers_value response offset data_type data_dest i =
     (if data_type = 0 then
        (let data_dest = data_dest[nat i := scast (response ! nat (offset + 2 + i))]
         in data_dest[nat i := ucast (response ! nat (offset + 2 + i))])
      else if data_type = 1 then
        data_dest[nat i := ucast (response ! nat (offset + 2 + i))]
      else if data_type = 2 then
        (let data_dest = data_dest[nat i := scast (be16 response offset i)]
         in data_dest[nat i := ucast (be16 response offset i)])
      else if data_type = 3 then
        data_dest[nat i := ucast (be16 response offset i)]
      else if data_type = 4 then
        (let data_dest = data_dest[nat i := be32 response offset i]
         in data_dest[nat i := be32 response offset i])
      else if data_type = 5 then
        data_dest[nat i := be32 response offset i]
      else data_dest[nat i := be32 response offset i])"

fun read_registers_loop ::
  "byte list \<Rightarrow> int \<Rightarrow> byte \<Rightarrow> nat list \<Rightarrow> 32 word list \<Rightarrow> 32 word list" where
  "read_registers_loop response offset data_type [] data_dest = data_dest"
| "read_registers_loop response offset data_type (i # is) data_dest =
     read_registers_loop response offset data_type is
       (read_registers_value response offset data_type data_dest (int i))"

definition read_registers ::
  "modbus_param_t \<Rightarrow> 16 word \<Rightarrow> int \<Rightarrow> int \<Rightarrow> int \<Rightarrow> 32 word list \<Rightarrow> byte
     \<Rightarrow> byte list \<Rightarrow> byte list \<Rightarrow> int \<Rightarrow> int \<Rightarrow> select_result list
     \<Rightarrow> (int \<times> 32 word list \<times> 16 word) option" where
  "read_registers mb_param t_id fn start_addr nb data_dest data_type
       query0 response0 indeterminate write_ret events =
     (if nb > MAX_REGISTERS then Some (INVALID_DATA, data_dest, t_id)
      else
        (let (query_length, query, t_id') =
               build_query_basis mb_param t_id fn start_addr nb query0;
             (ret, query', sent) = modbus_send (type_com mb_param) query query_length write_ret
         in if ret > 0 then
              (case modbus_receive (type_com mb_param) query' response0 data_type
                      indeterminate events of
                 None \<Rightarrow> None
               | Some (ret', response) \<Rightarrow>
                   Some (ret',
                         read_registers_loop response (TAB_HEADER_LENGTH (type_com mb_param))
                           data_type [0 ..< nat ret'] data_dest,
                         t_id'))
            else Some (ret, data_dest, t_id')))"

section \<open>The server\<close>

text \<open>
  The coil and register map: four arrays and their lengths, as \<^verbatim>\<open>modbus_mapping_new\<close>
  allocates them.
\<close>

record modbus_mapping_t =
  nb_coil_status :: int
  nb_input_status :: int
  nb_input_registers :: int
  nb_holding_registers :: int
  tab_coil_status :: "byte list"
  tab_input_status :: "byte list"
  tab_input_registers :: "16 word list"
  tab_holding_registers :: "16 word list"

fun response_io_status_loop ::
  "byte list \<Rightarrow> nat list \<Rightarrow> int \<Rightarrow> int \<Rightarrow> byte list \<Rightarrow> int \<Rightarrow> int \<times> int \<times> byte list \<times> int" where
  "response_io_status_loop tab_io_status [] shift byte response offset =
     (shift, byte, response, offset)"
| "response_io_status_loop tab_io_status (i # is) shift byte0 response offset =
     (let byte = byte0 OR push_bit (nat shift) (uint (tab_io_status ! i))
      in if shift = 7 then
           response_io_status_loop tab_io_status is 0 0
             (response[nat offset := of_int byte]) (offset + 1)
         else response_io_status_loop tab_io_status is (shift + 1) byte response offset)"

definition response_io_status ::
  "int \<Rightarrow> int \<Rightarrow> byte list \<Rightarrow> byte list \<Rightarrow> int \<Rightarrow> int \<times> byte list" where
  "response_io_status address nb tab_io_status response offset0 =
     (case response_io_status_loop tab_io_status [nat address ..< nat (address + nb)]
             0 0 response offset0 of
        (shift, byte, response', offset) \<Rightarrow>
          if shift \<noteq> 0 then (offset + 1, response'[nat offset := of_int byte])
          else (offset, response'))"

text \<open>
  \<^verbatim>\<open>response_exception\<close> stores \<^verbatim>\<open>-exception_code\<close>, the positive code, behind the
  header whose function is the query's plus \<open>0x80\<close>.
\<close>

definition response_exception :: "type_com_t \<Rightarrow> sft_t \<Rightarrow> int \<Rightarrow> byte list \<Rightarrow> int \<times> byte list" where
  "response_exception tc sft exception_code response =
     (let sft' = sft\<lparr>sft_function := sft_function sft + 0x80\<rparr>;
          (response_length, response') = build_response_basis tc sft' response
      in (response_length + 1, response'[nat response_length := of_int (- exception_code)]))"

text \<open>The loops of the two register reads and of the two multiple writes.\<close>

fun response_registers_loop ::
  "16 word list \<Rightarrow> nat list \<Rightarrow> byte list \<Rightarrow> int \<Rightarrow> int \<times> byte list" where
  "response_registers_loop tab_registers [] response resp_length = (resp_length, response)"
| "response_registers_loop tab_registers (i # is) response resp_length =
     response_registers_loop tab_registers is
       (response[nat resp_length := ucast (drop_bit 8 (tab_registers ! i)),
                 nat (resp_length + 1) := ucast (tab_registers ! i AND 0xFF)])
       (resp_length + 2)"

fun set_bits_from_bytes_loop ::
  "nat \<Rightarrow> byte list \<Rightarrow> nat list \<Rightarrow> int \<Rightarrow> byte list \<Rightarrow> byte list" where
  "set_bits_from_bytes_loop address tab_byte [] shift dest = dest"
| "set_bits_from_bytes_loop address tab_byte (i # is) shift dest =
     set_bits_from_bytes_loop address tab_byte is ((shift + 1) mod 8)
       (dest[i := (if uint (tab_byte ! ((i - address) div 8)) AND push_bit (nat shift) 1 \<noteq> 0
                   then ON else OFF)])"

definition set_bits_from_bytes :: "byte list \<Rightarrow> int \<Rightarrow> int \<Rightarrow> byte list \<Rightarrow> byte list" where
  "set_bits_from_bytes dest address nb_bits tab_byte =
     set_bits_from_bytes_loop (nat address) tab_byte
       [nat address ..< nat (address + nb_bits)] 0 dest"

fun preset_registers_loop ::
  "byte list \<Rightarrow> int \<Rightarrow> nat list \<Rightarrow> int \<Rightarrow> 16 word list \<Rightarrow> 16 word list" where
  "preset_registers_loop query offset [] j tab_registers = tab_registers"
| "preset_registers_loop query offset (i # is) j tab_registers =
     preset_registers_loop query offset is (j + 2)
       (tab_registers[i := of_int (push_bit 8 (byte_at query (offset + j))
                                    + byte_at query (offset + j + 1))])"

text \<open>
  \<^verbatim>\<open>modbus_slave_manage\<close>, in two parts. \<open>modbus_slave_manage_switch\<close> is its
  \<^verbatim>\<open>switch (function)\<close>: from the query, the map and the local array
  \<^verbatim>\<open>response\<close> to the map, \<^verbatim>\<open>resp_length\<close> and the array after it.
  \<open>response0\<close> is the array as the function finds it; the source does not initialise it.
\<close>

definition modbus_slave_manage_switch ::
  "type_com_t \<Rightarrow> sft_t \<Rightarrow> byte list \<Rightarrow> int \<Rightarrow> modbus_mapping_t \<Rightarrow> byte list
     \<Rightarrow> modbus_mapping_t \<times> int \<times> byte list" where
  "modbus_slave_manage_switch tc sft query query_length mb_mapping response0 =
     (let offset = TAB_HEADER_LENGTH tc;
          fn = byte_at query offset;
          address = (push_bit 8 (byte_at query (offset + 1)) + byte_at query (offset + 2))
                      mod 65536;
          nb = push_bit 8 (byte_at query (offset + 3)) + byte_at query (offset + 4)
      in
           (if fn = FC_READ_COIL_STATUS then
              (if address + nb > nb_coil_status mb_mapping then
                 (case response_exception tc sft ILLEGAL_DATA_ADDRESS response0 of
                    (n, r) \<Rightarrow> (mb_mapping, n, r))
               else
                 (case build_response_basis tc sft response0 of (n, r) \<Rightarrow>
                    (case response_io_status address nb (tab_coil_status mb_mapping)
                            (r[nat n := of_int ((nb div 8) + (if nb mod 8 \<noteq> 0 then 1 else 0))])
                            (n + 1) of
                       (n', r') \<Rightarrow> (mb_mapping, n', r'))))
            else if fn = FC_READ_INPUT_STATUS then
              (if address + nb > nb_input_status mb_mapping then
                 (case response_exception tc sft ILLEGAL_DATA_ADDRESS response0 of
                    (n, r) \<Rightarrow> (mb_mapping, n, r))
               else
                 (case build_response_basis tc sft response0 of (n, r) \<Rightarrow>
                    (case response_io_status address nb (tab_input_status mb_mapping)
                            (r[nat n := of_int ((nb div 8) + (if nb mod 8 \<noteq> 0 then 1 else 0))])
                            (n + 1) of
                       (n', r') \<Rightarrow> (mb_mapping, n', r'))))
            else if fn = FC_READ_HOLDING_REGISTERS then
              (if address + nb > nb_holding_registers mb_mapping then
                 (case response_exception tc sft ILLEGAL_DATA_ADDRESS response0 of
                    (n, r) \<Rightarrow> (mb_mapping, n, r))
               else
                 (case build_response_basis tc sft response0 of (n, r) \<Rightarrow>
                    (case response_registers_loop (tab_holding_registers mb_mapping)
                            [nat address ..< nat (address + nb)]
                            (r[nat n := of_int (push_bit 1 nb)]) (n + 1) of
                       (n', r') \<Rightarrow> (mb_mapping, n', r'))))
            else if fn = FC_READ_INPUT_REGISTERS then
              (if address + nb > nb_input_registers mb_mapping then
                 (case response_exception tc sft ILLEGAL_DATA_ADDRESS response0 of
                    (n, r) \<Rightarrow> (mb_mapping, n, r))
               else
                 (case build_response_basis tc sft response0 of (n, r) \<Rightarrow>
                    (case response_registers_loop (tab_input_registers mb_mapping)
                            [nat address ..< nat (address + nb)]
                            (r[nat n := of_int (push_bit 1 nb)]) (n + 1) of
                       (n', r') \<Rightarrow> (mb_mapping, n', r'))))
            else if fn = FC_FORCE_SINGLE_COIL then
              (if address \<ge> nb_coil_status mb_mapping then
                 (case response_exception tc sft ILLEGAL_DATA_ADDRESS response0 of
                    (n, r) \<Rightarrow> (mb_mapping, n, r))
               else
                 (let data = nb
                  in if data = 0xFF00 \<or> data = 0x0 then
                       (mb_mapping\<lparr>tab_coil_status :=
                           (tab_coil_status mb_mapping)
                             [nat address := (if data \<noteq> 0 then ON else OFF)]\<rparr>,
                        query_length,
                        memcpy response0 0 query 0 (nat query_length))
                     else
                       (case response_exception tc sft ILLEGAL_DATA_VALUE response0 of
                          (n, r) \<Rightarrow> (mb_mapping, n, r))))
            else if fn = FC_PRESET_SINGLE_REGISTER then
              (if address \<ge> nb_holding_registers mb_mapping then
                 (case response_exception tc sft ILLEGAL_DATA_ADDRESS response0 of
                    (n, r) \<Rightarrow> (mb_mapping, n, r))
               else
                 (let data = nb
                  in (mb_mapping\<lparr>tab_holding_registers :=
                        (tab_holding_registers mb_mapping)[nat address := of_int data]\<rparr>,
                      query_length,
                      memcpy response0 0 query 0 (nat query_length))))
            else if fn = FC_FORCE_MULTIPLE_COILS then
              (if address + nb > nb_coil_status mb_mapping then
                 (case response_exception tc sft ILLEGAL_DATA_ADDRESS response0 of
                    (n, r) \<Rightarrow> (mb_mapping, n, r))
               else
                 (case build_response_basis tc sft response0 of (n, r) \<Rightarrow>
                    (mb_mapping\<lparr>tab_coil_status :=
                        set_bits_from_bytes (tab_coil_status mb_mapping) address nb
                          (drop (nat (offset + 6)) query)\<rparr>,
                     n + 4,
                     memcpy r (nat n) query (nat n) 4)))
            else if fn = FC_PRESET_MULTIPLE_REGISTERS then
              (if address + nb > nb_holding_registers mb_mapping then
                 (case response_exception tc sft ILLEGAL_DATA_ADDRESS response0 of
                    (n, r) \<Rightarrow> (mb_mapping, n, r))
               else
                 (case build_response_basis tc sft response0 of (n, r) \<Rightarrow>
                    (mb_mapping\<lparr>tab_holding_registers :=
                        preset_registers_loop query offset
                          [nat address ..< nat (address + nb)] 6
                          (tab_holding_registers mb_mapping)\<rparr>,
                     n + 4,
                     memcpy r (nat n) query (nat n) 4)))
            else (mb_mapping, 0, response0)))"

text \<open>
  The whole function. The result is \<open>None\<close> when it returns before it sends (the query
  is for another unit), and otherwise the map as the function leaves it with the bytes
  that its final \<^verbatim>\<open>modbus_send (response, resp_length)\<close> hands to the transport; the
  value of that call is dropped by the source.
\<close>

definition modbus_slave_manage ::
  "modbus_param_t \<Rightarrow> byte list \<Rightarrow> int \<Rightarrow> modbus_mapping_t \<Rightarrow> byte list \<Rightarrow> int
     \<Rightarrow> (modbus_mapping_t \<times> byte list) option" where
  "modbus_slave_manage mb_param query query_length0 mb_mapping response0 write_ret =
     (let tc = type_com mb_param;
          offset = TAB_HEADER_LENGTH tc;
          slv = byte_at query (offset - 1);
          fn = byte_at query offset
      in if slv \<noteq> slave mb_param \<and> slv \<noteq> MODBUS_BROADCAST_ADDRESS then None
         else
           (let sft = \<lparr>sft_slave = slv, sft_function = fn,
                       sft_t_id = (if tc = TCP then push_bit 8 (byte_at query 0) + byte_at query 1
                                   else 0)\<rparr>;
                query_length = (if tc = TCP then query_length0
                                else query_length0 - CHECKSUM_LENGTH_RTU)
            in case modbus_slave_manage_switch tc sft query query_length mb_mapping response0 of
                 (mb_mapping', resp_length, response) \<Rightarrow>
                   (case modbus_send tc response resp_length write_ret of
                      (ret, response', sent) \<Rightarrow> Some (mb_mapping', sent))))"

text \<open>
  A device of the proofs, not of the source: \<open>crc_lo_index\<close> recovers the index of an
  entry of \<open>table_crc_lo\<close> from its bits (the table is linear over the bits of its
  index), which shows that no two entries of that table are equal.
\<close>

definition crc_lo_index :: "byte \<Rightarrow> byte" where
  "crc_lo_index w =
     (if bit w 0 then 0x03 else 0) XOR (if bit w 1 then 0x06 else 0) XOR
     (if bit w 2 then 0x0F else 0) XOR (if bit w 3 then 0x1E else 0) XOR
     (if bit w 4 then 0x3F else 0) XOR (if bit w 5 then 0x7E else 0) XOR
     (if bit w 6 then 0xFF else 0) XOR (if bit w 7 then 0xFE else 0)"

section \<open>Properties of the CRC engine\<close>

lemma upt_0_256: "[0..<256] = 0 # 1 # [2..<256]"
  by (simp add: upt_conv_Cons)

lemma crc_lo_index_table:
  "map crc_lo_index table_crc_lo = 0 # 1 # map of_nat [2..<256]"
  by (simp add: table_crc_lo_def crc_lo_index_def)

lemma length_table_crc_lo: "length table_crc_lo = 256"
  by (simp add: table_crc_lo_def)

lemma crc_lo_index_nth:
  assumes "i < 256"
  shows "crc_lo_index (table_crc_lo ! i) = of_nat i"
proof -
  have "map crc_lo_index table_crc_lo = map of_nat [0..<256]"
    by (simp add: crc_lo_index_table upt_0_256 del: upt_rec_numeral)
  then have "map crc_lo_index table_crc_lo ! i = map of_nat [0..<256] ! i"
    by simp
  with assms show ?thesis
    by (simp add: length_table_crc_lo del: upt_rec_numeral)
qed

lemma table_crc_lo_inj:
  assumes "i < 256" "j < 256" "table_crc_lo ! i = table_crc_lo ! j"
  shows "i = j"
proof -
  have "(of_nat i :: byte) = of_nat j"
    using assms crc_lo_index_nth [of i] crc_lo_index_nth [of j] by simp
  then have "unat (of_nat i :: byte) = unat (of_nat j :: byte)" by simp
  with assms show ?thesis by (simp add: unat_of_nat take_bit_nat_eq_self)
qed

lemma unat_byte_less: "unat (w :: byte) < 256"
  using unsigned_less [of w, where ?'a = nat] by simp

lemma table_crc_lo_byte_inj:
  "table_crc_lo ! unat (x :: byte) = table_crc_lo ! unat (y :: byte) \<Longrightarrow> x = y"
  using table_crc_lo_inj [OF unat_byte_less unat_byte_less] by (simp add: word_unat_eq_iff)

lemma xor_cancel_right:
  assumes "(a :: byte) XOR b = c XOR b"
  shows "a = c"
proof -
  have "a = (a XOR b) XOR b" by (simp add: xor.assoc)
  also have "\<dots> = (c XOR b) XOR b" using assms by simp
  also have "\<dots> = c" by (simp add: xor.assoc)
  finally show ?thesis .
qed

lemma xor_cancel_left: "(b :: byte) XOR a = b XOR c \<Longrightarrow> a = c"
  using xor_cancel_right [of a b c] by (simp add: xor.commute)

lemma crc16_loop_append:
  "crc16_loop hi lo (xs @ ys) = (case crc16_loop hi lo xs of (h, l) \<Rightarrow> crc16_loop h l ys)"
  by (induction xs arbitrary: hi lo) (simp_all add: Let_def)

lemma crc16_loop_inj_state:
  "crc16_loop h1 l1 bs = crc16_loop h2 l2 bs \<Longrightarrow> h1 = h2 \<and> l1 = l2"
proof (induction bs arbitrary: h1 l1 h2 l2)
  case Nil
  then show ?case by simp
next
  case (Cons b bs)
  let ?i1 = "unat (h1 XOR b)" and ?i2 = "unat (h2 XOR b)"
  from Cons.prems have
    "crc16_loop (l1 XOR table_crc_hi ! ?i1) (table_crc_lo ! ?i1) bs =
     crc16_loop (l2 XOR table_crc_hi ! ?i2) (table_crc_lo ! ?i2) bs"
    by (simp add: Let_def)
  from Cons.IH [OF this] have
    hi: "l1 XOR table_crc_hi ! ?i1 = l2 XOR table_crc_hi ! ?i2" and
    lo: "table_crc_lo ! ?i1 = table_crc_lo ! ?i2"
    by simp_all
  from lo have x: "h1 XOR b = h2 XOR b" by (rule table_crc_lo_byte_inj)
  then have "h1 = h2" by (rule xor_cancel_right)
  moreover from hi x have "l1 = l2" by (simp add: xor_cancel_right)
  ultimately show ?case by simp
qed

lemma crc16_loop_inj_byte:
  assumes "crc16_loop h l (b1 # bs) = crc16_loop h l (b2 # bs)"
  shows "b1 = b2"
proof -
  let ?i1 = "unat (h XOR b1)" and ?i2 = "unat (h XOR b2)"
  from assms have
    "crc16_loop (l XOR table_crc_hi ! ?i1) (table_crc_lo ! ?i1) bs =
     crc16_loop (l XOR table_crc_hi ! ?i2) (table_crc_lo ! ?i2) bs"
    by (simp add: Let_def)
  then have "table_crc_lo ! ?i1 = table_crc_lo ! ?i2"
    by (simp add: crc16_loop_inj_state)
  then have "h XOR b1 = h XOR b2" by (rule table_crc_lo_byte_inj)
  then show ?thesis by (rule xor_cancel_left)
qed

lemma crc16_loop_update:
  assumes "k < length S" "crc16_loop h l (S[k := b]) = crc16_loop h l S"
  shows "b = S ! k"
proof -
  obtain h' l' where pre: "crc16_loop h l (take k S) = (h', l')"
    by (cases "crc16_loop h l (take k S)")
  have S: "S = take k S @ S ! k # drop (Suc k) S"
    using assms(1) by (simp add: id_take_nth_drop)
  have S': "S[k := b] = take k S @ b # drop (Suc k) S"
    using assms(1) by (simp add: upd_conv_take_nth_drop)
  have "crc16_loop h l (S[k := b]) = crc16_loop h' l' (b # drop (Suc k) S)"
    by (subst S') (simp only: crc16_loop_append pre prod.case)
  moreover have "crc16_loop h l S = crc16_loop h' l' (S ! k # drop (Suc k) S)"
    by (subst S) (simp only: crc16_loop_append pre prod.case)
  ultimately have "crc16_loop h' l' (b # drop (Suc k) S) = crc16_loop h' l' (S ! k # drop (Suc k) S)"
    using assms(2) by simp
  then show ?thesis by (rule crc16_loop_inj_byte)
qed

lemma crc_pack_hi: "ucast (drop_bit 8 (push_bit 8 (ucast h) OR ucast l :: 16 word)) = (h :: byte)"
  for l :: byte
  by (rule bit_word_eqI) (auto simp: bit_simps dest: bit_imp_le_length)

lemma crc_pack_lo: "ucast (push_bit 8 (ucast h) OR ucast l :: 16 word) = (l :: byte)"
  for h :: byte
  by (rule bit_word_eqI) (auto simp: bit_simps)

lemma crc_pack_inj:
  "(push_bit 8 (ucast h1) OR ucast l1 :: 16 word) = push_bit 8 (ucast h2) OR ucast l2
   \<Longrightarrow> h1 = h2 \<and> l1 = l2" for h1 h2 l1 l2 :: byte
proof -
  assume eq: "(push_bit 8 (ucast h1) OR ucast l1 :: 16 word) = push_bit 8 (ucast h2) OR ucast l2"
  have "h1 = ucast (drop_bit 8 (push_bit 8 (ucast h1) OR ucast l1 :: 16 word))"
    by (simp only: crc_pack_hi)
  also have "\<dots> = h2" by (simp only: eq crc_pack_hi)
  finally have h: "h1 = h2" .
  have "l1 = ucast (push_bit 8 (ucast h1) OR ucast l1 :: 16 word)"
    by (simp only: crc_pack_lo)
  also have "\<dots> = l2" by (simp only: eq crc_pack_lo)
  finally show ?thesis using h by simp
qed

lemma crc_unpack:
  "push_bit 8 (ucast (ucast (drop_bit 8 c) :: byte)) OR ucast (ucast (c AND 0xFF) :: byte) = c"
  for c :: "16 word"
proof -
  have m: "(0xFF :: 16 word) = mask 8" by (simp add: mask_eq_exp_minus_1)
  show ?thesis
    unfolding m by (rule bit_word_eqI) (auto simp: bit_simps)
qed

lemma crc16_take_append: "crc16 (S @ t) (length S) = crc16 S (length S)"
  by (simp add: crc16_def)

lemma crc16_update_neq:
  assumes "k < length S" "b \<noteq> S ! k"
  shows "crc16 (S[k := b]) (length S) \<noteq> crc16 S (length S)"
proof
  assume eq: "crc16 (S[k := b]) (length S) = crc16 S (length S)"
  obtain h1 l1 where a: "crc16_loop 0xFF 0xFF (S[k := b]) = (h1, l1)"
    by (cases "crc16_loop 0xFF 0xFF (S[k := b])")
  obtain h2 l2 where c: "crc16_loop 0xFF 0xFF S = (h2, l2)"
    by (cases "crc16_loop 0xFF 0xFF S")
  from eq a c have "h1 = h2 \<and> l1 = l2"
    by (simp add: crc16_def crc_pack_inj)
  with a c have "crc16_loop 0xFF 0xFF (S[k := b]) = crc16_loop 0xFF 0xFF S" by simp
  from crc16_loop_update [OF assms(1) this] assms(2) show False by simp
qed

lemma check_crc16_frame:
  assumes "length S \<le> 254"
  shows "check_crc16 (S @ [h, l]) (int (length S) + 2) =
         (if crc16 S (length S) = push_bit 8 (ucast h) OR ucast l
          then int (length S) + 2 else INVALID_CRC)"
proof -
  have n: "nat ((int (length S) + 2 - 2) mod 65536) = length S"
    using assms by simp
  have i1: "nat (int (length S) + 2 - 2) = length S" by simp
  have i2: "nat (int (length S) + 2 - 1) = Suc (length S)" by simp
  show ?thesis
    unfolding check_crc16_def Let_def n i1 i2
    by (simp add: crc16_take_append nth_append)
qed

text \<open>
  Claim C1. For every byte sequence \<open>S\<close> of 1 to 254 bytes, the message \<open>S\<close> followed
  by the two bytes of \<open>crc16 S\<close>, high byte first, is accepted by \<open>check_crc16\<close>,
  which returns the length of the whole message; and every message that differs from it
  in exactly one byte is rejected with \<open>INVALID_CRC\<close>.
\<close>

theorem crc16_append_check:
  fixes S :: "byte list"
  assumes "1 \<le> length S" and "length S \<le> 254"
  shows "(let c = crc16 S (length S);
              m = S @ [ucast (drop_bit 8 c), ucast (c AND 0xFF)]
          in check_crc16 m (int (length m)) = int (length m) \<and>
             (\<forall>k b. k < length m \<longrightarrow> b \<noteq> m ! k \<longrightarrow>
                check_crc16 (m[k := b]) (int (length m)) = INVALID_CRC))"
proof -
  define c where "c = crc16 S (length S)"
  define h :: byte where "h = ucast (drop_bit 8 c)"
  define l :: byte where "l = ucast (c AND 0xFF)"
  define m where "m = S @ [h, l]"
  have pack: "push_bit 8 (ucast h) OR ucast l = c"
    unfolding h_def l_def by (rule crc_unpack)
  have len: "int (length m) = int (length S) + 2" by (simp add: m_def)
  have ok: "check_crc16 m (int (length m)) = int (length m)"
    using check_crc16_frame [OF assms(2), of h l] pack by (simp add: m_def c_def add.commute)
  have bad: "check_crc16 (m[k := b]) (int (length m)) = INVALID_CRC"
    if k: "k < length m" and b: "b \<noteq> m ! k" for k b
  proof -
    consider "k < length S" | "k = length S" | "k = Suc (length S)"
      using k by (auto simp: m_def less_Suc_eq)
    then show ?thesis
    proof cases
      case 1
      then have upd: "m[k := b] = S[k := b] @ [h, l]"
        by (simp add: m_def list_update_append)
      from 1 b have "b \<noteq> S ! k" by (simp add: m_def nth_append)
      from crc16_update_neq [OF 1 this]
      have "crc16 (S[k := b]) (length (S[k := b])) \<noteq> push_bit 8 (ucast h) OR ucast l"
        by (simp add: pack c_def)
      moreover have "length (S[k := b]) \<le> 254" using assms(2) by simp
      ultimately show ?thesis
        unfolding len upd using check_crc16_frame [of "S[k := b]" h l] by simp
    next
      case 2
      then have upd: "m[k := b] = S @ [b, l]"
        by (simp add: m_def list_update_append)
      from 2 b have "b \<noteq> h" by (simp add: m_def nth_append)
      then have "c \<noteq> push_bit 8 (ucast b) OR ucast l"
        using crc_pack_inj [of h l b l] pack by auto
      then show ?thesis
        unfolding len upd using assms(2) by (simp add: check_crc16_frame c_def)
    next
      case 3
      then have upd: "m[k := b] = S @ [h, b]"
        by (simp add: m_def list_update_append)
      from 3 b have "b \<noteq> l" by (simp add: m_def nth_append)
      then have "c \<noteq> push_bit 8 (ucast h) OR ucast b"
        using crc_pack_inj [of h l h b] pack by auto
      then show ?thesis
        unfolding len upd using assms(2) by (simp add: check_crc16_frame c_def)
    qed
  qed
  from ok bad show ?thesis
    unfolding Let_def c_def [symmetric] h_def [symmetric] l_def [symmetric] m_def [symmetric]
    by blast
qed

text \<open>
  The request of scenario S1, \<open>01 03 00 00 00 01\<close> with its CRC \<open>84 0A\<close>, and the
  same frame with its last byte changed.
\<close>

theorem crc16_append_check_witness:
  "1 \<le> length [1, 3, 0, 0, 0, 1 :: byte] \<and> length [1, 3, 0, 0, 0, 1 :: byte] \<le> 254 \<and>
   check_crc16 [1, 3, 0, 0, 0, 1, 0x84, 0x0A] 8 = 8 \<and>
   check_crc16 [1, 3, 0, 0, 0, 1, 0x84, 0x0B] 8 = INVALID_CRC"
proof -
  let ?S = "[1, 3, 0, 0, 0, 1 :: byte]"
  let ?M = "[1, 3, 0, 0, 0, 1, 0x84, 0x0A :: byte]"
  have len: "length ?S = 6" by simp
  have c: "crc16 ?S 6 = 0x840A"
    by (simp add: crc16_def table_crc_hi_def table_crc_lo_def Let_def)
  have h: "(ucast (drop_bit 8 (0x840A :: 16 word)) :: byte) = 0x84" by simp
  have l: "(ucast ((0x840A :: 16 word) AND 0xFF) :: byte) = 0x0A" by simp
  have app: "?S @ [0x84, 0x0A] = ?M" by simp
  have len8: "int (length ?M) = 8" by simp
  have p: "1 \<le> length ?S" "length ?S \<le> 254" by simp_all
  note t = crc16_append_check [OF p, unfolded Let_def len c h l app len8]
  from t have ok: "check_crc16 ?M 8 = 8" by (rule conjunct1)
  from t have "7 < length ?M \<longrightarrow> 0x0B \<noteq> ?M ! 7 \<longrightarrow>
      check_crc16 (?M[7 := 0x0B]) 8 = INVALID_CRC" by blast
  then have "check_crc16 [1, 3, 0, 0, 0, 1, 0x84, 0x0B] 8 = INVALID_CRC" by simp
  with ok p show ?thesis by simp
qed

section \<open>Properties of the framing\<close>

lemma byte_at_range: "0 \<le> byte_at buf i \<and> byte_at buf i < 256"
  unfolding byte_at_def using uint_lt2p [of "buf ! nat i"] by simp

lemma or_byte_eq_add:
  "push_bit 8 a OR uint (b :: byte) = 256 * a + uint b" for a :: int
proof -
  have "push_bit 8 a AND uint b = 0"
    by (rule bit_eqI) (auto simp: bit_simps dest: bit_imp_le_length)
  then have "push_bit 8 a + uint b = push_bit 8 a OR uint b"
    by (rule disjunctive_add_eq_or)
  then show ?thesis by (simp add: push_bit_eq_mult)
qed

lemma be16_or: "push_bit 8 (byte_at q i) OR byte_at q j = 256 * byte_at q i + byte_at q j"
  unfolding byte_at_def by (rule or_byte_eq_add)

lemma be16_add: "push_bit 8 (byte_at q i) + byte_at q j = 256 * byte_at q i + byte_at q j"
  by (simp add: push_bit_eq_mult)

lemma ceil_div8: "2 + (n :: int) div 8 + (if n mod 8 \<noteq> 0 then 1 else 0) = 2 + (n + 7) div 8"
proof (cases "n mod 8 = 0")
  case True
  then obtain q where "n = 8 * q" by (auto simp: mod_eq_0_iff_dvd)
  then show ?thesis by simp
next
  case False
  define q r where "q = n div 8" and "r = n mod 8"
  have n: "n = 8 * q + r" by (simp add: q_def r_def)
  have "0 \<le> n mod 8" and "n mod 8 < 8" by simp_all
  with False have r: "0 < r" "r < 8" by (simp_all add: r_def)
  have "(n + 7) div 8 = (8 * (q + 1) + (r - 1)) div 8" by (simp add: n algebra_simps)
  also have "\<dots> = q + 1" using r by simp
  finally show ?thesis using False by (simp add: q_def)
qed

lemmas fc_defs = FC_READ_COIL_STATUS_def FC_READ_INPUT_STATUS_def
  FC_READ_HOLDING_REGISTERS_def FC_READ_INPUT_REGISTERS_def FC_FORCE_SINGLE_COIL_def
  FC_PRESET_SINGLE_REGISTER_def FC_READ_EXCEPTION_STATUS_def FC_FORCE_MULTIPLE_COILS_def
  FC_PRESET_MULTIPLE_REGISTERS_def FC_REPORT_SLAVE_ID_def

lemmas geometry_defs = HEADER_LENGTH_RTU_def HEADER_LENGTH_TCP_def CHECKSUM_LENGTH_RTU_def
  CHECKSUM_LENGTH_TCP_def MAX_ADU_LENGTH_RTU_def MAX_ADU_LENGTH_TCP_def

lemmas sentinel_defs = INVALID_DATA_def INVALID_CRC_def INVALID_EXCEPTION_CODE_def
  SELECT_TIMEOUT_def SELECT_FAILURE_def SOCKET_FAILURE_def CONNECTION_CLOSED_def
  MB_EXCEPTION_def

text \<open>
  Claim C2, as the code has it. The expected length of a response is, with the quantity
  the big-endian 16-bit field at header offset + 3 and the checksum 2 bytes in RTU and none
  in TCP: header + 2 + ceil(quantity / 8) + checksum for the function codes 0x01 and 0x02;
  header + 2 + bytes per value * quantity + checksum for 0x03 and 0x04, where a value takes
  1 byte for the data types 0 and 1 (I8, U8), 4 bytes for 4 and 5 (I32, U32) and 2 bytes
  for every other tag (I16, U16, and also I64, U64, F32, F64); header + 3 + checksum for
  0x07; the undefined sentinel for 0x11; header + 5 + checksum otherwise.
\<close>

theorem compute_response_length_cases:
  "compute_response_length tc query data_type =
     (let header = TAB_HEADER_LENGTH tc;
          checksum = (case tc of RTU \<Rightarrow> 2 | TCP \<Rightarrow> 0);
          fc = byte_at query header;
          quantity = 256 * byte_at query (header + 3) + byte_at query (header + 4)
      in if fc = 0x01 \<or> fc = 0x02 then header + 2 + (quantity + 7) div 8 + checksum
         else if fc = 0x03 \<or> fc = 0x04 then
           header + 2
             + (if data_type = 0 \<or> data_type = 1 then 1
                else if data_type = 4 \<or> data_type = 5 then 4
                else 2) * quantity
             + checksum
         else if fc = 0x07 then header + 3 + checksum
         else if fc = 0x11 then MSG_LENGTH_UNDEFINED
         else header + 5 + checksum)"
  unfolding compute_response_length_def Let_def be16_or ceil_div8 fc_defs
  by (cases tc) (simp_all add: geometry_defs)

text \<open>
  The request of scenario S1 read with the data type 6 (I64), 2 bytes per value, and the
  request of scenario S3.
\<close>

theorem compute_response_length_cases_witness:
  "compute_response_length RTU [1, 3, 0, 0, 0, 1] 6 = 7
   \<and> compute_response_length TCP [0, 1, 0, 0, 0, 6, 1, 2, 0, 0, 0, 0x0A] 3 = 11"
  using compute_response_length_cases [of RTU "[1, 3, 0, 0, 0, 1]" 6]
    compute_response_length_cases [of TCP "[0, 1, 0, 0, 0, 6, 1, 2, 0, 0, 0, 0x0A]" 3]
  by (simp add: byte_at_def geometry_defs)

text \<open>
  The claim as stated asks 8 bytes per value of the data type 6 (I64): for a read of one
  holding register in RTU that is 1 + 2 + 8 + 2 = 13 bytes, and the code expects 7.
\<close>

theorem compute_response_length_counterexample:
  "byte_at [1, 3, 0, 0, 0, 1] HEADER_LENGTH_RTU = 0x03
   \<and> 256 * byte_at [1, 3, 0, 0, 0, 1] (HEADER_LENGTH_RTU + 3)
       + byte_at [1, 3, 0, 0, 0, 1] (HEADER_LENGTH_RTU + 4) = 1
   \<and> compute_response_length RTU [1, 3, 0, 0, 0, 1] 6
       \<noteq> HEADER_LENGTH_RTU + 2 + 8 * 1 + CHECKSUM_LENGTH_RTU"
  by (simp add: compute_response_length_def byte_at_def geometry_defs fc_defs)

section \<open>Properties of the receive state machine\<close>

lemma receive_loop_interrupted:
  "receive_loop tc state mlc ltr ml msg (replicate k Select_interrupted @ events) =
   receive_loop tc state mlc ltr ml msg events"
  by (induction k) simp_all

lemma exception_length_pos: "0 < TAB_HEADER_LENGTH tc + 2 + TAB_CHECKSUM_LENGTH tc"
  by (cases tc) (simp_all add: geometry_defs)

lemma receive_msg_timeout_first:
  "receive_msg tc msg_length_computed msg
     (replicate k Select_interrupted @ Select_timed_out # events) = Some (SELECT_TIMEOUT, msg)"
  using exception_length_pos [of tc]
  by (simp add: receive_msg_def receive_loop_interrupted)

lemma receive_loop_ready_more:
  assumes "take (nat ltr) bs = bs" and "bs \<noteq> []"
    and "receive_analyse tc st mlc (ml + int (length bs)) (store_bytes msg (nat ml) bs) =
           Some (st', mlc', ltr')"
    and "0 < ltr'"
  shows "receive_loop tc st mlc ltr ml msg (Select_ready (Read_bytes bs) # events) =
         receive_loop tc st' mlc' ltr' (ml + int (length bs)) (store_bytes msg (nat ml) bs) events"
  using assms by (simp add: Let_def)

lemma receive_loop_ready_done:
  assumes "take (nat ltr) bs = bs" and "bs \<noteq> []"
    and "receive_analyse tc st mlc (ml + int (length bs)) (store_bytes msg (nat ml) bs) =
           Some (st', mlc', ltr')"
    and "\<not> 0 < ltr'"
  shows "receive_loop tc st mlc ltr ml msg (Select_ready (Read_bytes bs) # events) =
         (if tc = RTU
          then Some (check_crc16 (store_bytes msg (nat ml) bs) (ml + int (length bs)),
                     store_bytes msg (nat ml) bs)
          else Some (ml + int (length bs), store_bytes msg (nat ml) bs))"
  using assms by (simp add: Let_def)

lemma store_bytes_nil: "store_bytes buf p [] = buf"
  by (simp add: store_bytes_def)

lemma store_bytes_append:
  "p \<le> length buf \<Longrightarrow>
   store_bytes (store_bytes buf p b1) (p + length b1) b2 = store_bytes buf p (b1 @ b2)"
  by (simp add: store_bytes_def min_def ac_simps)

lemma length_store_bytes:
  "p \<le> length buf \<Longrightarrow> p + length bs \<le> length (store_bytes buf p bs)"
  by (simp add: store_bytes_def)

lemma data_only_no_bytes:
  "data_only evs \<Longrightarrow> received evs = [] \<Longrightarrow> evs = replicate (length evs) Select_interrupted"
  by (induction evs rule: data_only.induct) simp_all

lemma receive_loop_collect:
  "data_only pre \<Longrightarrow> 0 \<le> ml \<Longrightarrow> ml + int (length (received pre)) < mlc
   \<Longrightarrow> nat ml \<le> length buf
   \<Longrightarrow> receive_loop tc st mlc (mlc - ml) ml buf (pre @ rest) =
       receive_loop tc st mlc (mlc - (ml + int (length (received pre))))
         (ml + int (length (received pre))) (store_bytes buf (nat ml) (received pre)) rest"
proof (induction pre arbitrary: ml buf rule: data_only.induct)
  case 1
  then show ?case by (simp add: store_bytes_nil)
next
  case (2 events)
  then show ?case by simp
next
  case (3 bs events)
  let ?ml = "ml + int (length bs)"
  let ?buf = "store_bytes buf (nat ml) bs"
  from 3(2) have ne: "bs \<noteq> []" and d: "data_only events" by simp_all
  from 3(4) have lt: "?ml + int (length (received events)) < mlc" by simp
  have tk: "take (nat (mlc - ml)) bs = bs" using lt by simp
  have an: "receive_analyse tc st mlc ?ml ?buf = Some (st, mlc, mlc - ?ml)"
    using lt by (simp add: receive_analyse_def)
  have more: "0 < mlc - ?ml" using lt by simp
  have nn: "0 \<le> ?ml" using 3(3) by simp
  have cap: "nat ?ml \<le> length ?buf"
    using length_store_bytes [OF 3(5), of bs] 3(3) by (simp add: nat_add_distrib)
  have "receive_loop tc st mlc (mlc - ml) ml buf ((Select_ready (Read_bytes bs) # events) @ rest)
      = receive_loop tc st mlc (mlc - ?ml) ?ml ?buf (events @ rest)"
    using receive_loop_ready_more [OF tk ne an more] by simp
  also have "\<dots> = receive_loop tc st mlc (mlc - (?ml + int (length (received events))))
         (?ml + int (length (received events)))
         (store_bytes ?buf (nat ?ml) (received events)) rest"
    using "3.IH" [OF d nn lt cap] .
  also have "store_bytes ?buf (nat ?ml) (received events) =
      store_bytes buf (nat ml) (bs @ received events)"
    using store_bytes_append [OF 3(5), of bs "received events"] 3(3)
    by (simp add: nat_add_distrib)
  finally show ?case by (simp add: add.assoc)
qed simp_all

lemma receive_loop_phase:
  "data_only evs \<Longrightarrow> 0 \<le> ml \<Longrightarrow> ml < mlc \<Longrightarrow> ml + int (length (received evs)) = mlc
   \<Longrightarrow> nat ml \<le> length buf
   \<Longrightarrow> receive_loop tc st mlc (mlc - ml) ml buf (evs @ rest) =
       (case receive_analyse tc st mlc mlc (store_bytes buf (nat ml) (received evs)) of
          None \<Rightarrow> Some (INVALID_DATA, store_bytes buf (nat ml) (received evs))
        | Some (st', mlc', ltr') \<Rightarrow>
            if 0 < ltr' then
              receive_loop tc st' mlc' ltr' mlc (store_bytes buf (nat ml) (received evs)) rest
            else if tc = RTU then
              Some (check_crc16 (store_bytes buf (nat ml) (received evs)) mlc,
                    store_bytes buf (nat ml) (received evs))
            else Some (mlc, store_bytes buf (nat ml) (received evs)))"
proof (induction evs arbitrary: ml buf rule: data_only.induct)
  case 1
  then show ?case by simp
next
  case (2 events)
  from 2(2) have d: "data_only events" by simp
  from 2(5) have le: "ml + int (length (received events)) = mlc" by simp
  have "receive_loop tc st mlc (mlc - ml) ml buf ((Select_interrupted # events) @ rest) =
        receive_loop tc st mlc (mlc - ml) ml buf (events @ rest)"
    by simp
  also note "2.IH" [OF d 2(3) 2(4) le 2(6)]
  finally show ?case unfolding received.simps .
next
  case (3 bs events)
  let ?ml = "ml + int (length bs)"
  let ?buf = "store_bytes buf (nat ml) bs"
  from 3(2) have ne: "bs \<noteq> []" and d: "data_only events" by simp_all
  from 3(5) have le: "?ml + int (length (received events)) = mlc" by simp
  have tk: "take (nat (mlc - ml)) bs = bs" using le by simp
  have nn: "0 \<le> ?ml" using 3(3) by simp
  have cap: "nat ?ml \<le> length ?buf"
    using length_store_bytes [OF 3(6), of bs] 3(3) by (simp add: nat_add_distrib)
  have st: "store_bytes ?buf (nat ?ml) (received events) =
      store_bytes buf (nat ml) (received (Select_ready (Read_bytes bs) # events))"
    using store_bytes_append [OF 3(6), of bs "received events"] 3(3)
    by (simp add: nat_add_distrib)
  show ?case
  proof (cases "?ml < mlc")
    case True
    have an: "receive_analyse tc st mlc ?ml ?buf = Some (st, mlc, mlc - ?ml)"
      using True by (simp add: receive_analyse_def)
    have more: "0 < mlc - ?ml" using True by simp
    have "receive_loop tc st mlc (mlc - ml) ml buf
            ((Select_ready (Read_bytes bs) # events) @ rest)
        = receive_loop tc st mlc (mlc - ?ml) ?ml ?buf (events @ rest)"
      using receive_loop_ready_more [OF tk ne an more] by simp
    also note "3.IH" [OF d nn True le cap]
    finally show ?thesis unfolding st .
  next
    case False
    with le have "int (length (received events)) = 0" and eq: "?ml = mlc" by arith+
    then have nil: "received events = []" by simp
    from data_only_no_bytes [OF d nil]
    have ev: "events = replicate (length events) Select_interrupted" .
    have rest: "receive_loop tc st' mlc' ltr' mlc ?buf (events @ rest) =
                receive_loop tc st' mlc' ltr' mlc ?buf rest" for st' mlc' ltr'
      using receive_loop_interrupted [of tc st' mlc' ltr' mlc ?buf "length events" rest] ev
      by simp
    show ?thesis
    proof (cases "receive_analyse tc st mlc mlc ?buf")
      case None
      with tk ne eq nil show ?thesis by (simp add: Let_def)
    next
      case (Some x)
      obtain st' mlc' ltr' where x: "x = (st', mlc', ltr')" by (cases x)
      from Some x have an: "receive_analyse tc st mlc ?ml ?buf = Some (st', mlc', ltr')"
        using eq by simp
      show ?thesis
      proof (cases "0 < ltr'")
        case True
        from receive_loop_ready_more [OF tk ne an True, of "events @ rest"] Some x True eq nil rest
        show ?thesis by simp
      next
        case False
        from receive_loop_ready_done [OF tk ne an False, of "events @ rest"] Some x False eq nil
        show ?thesis by simp
      qed
    qed
  qed
qed simp_all

lemma receive_loop_phase_next:
  assumes "data_only evs" and "0 \<le> ml" and "ml < mlc"
    and "ml + int (length (received evs)) = mlc" and "nat ml \<le> length buf"
    and "store_bytes buf (nat ml) (received evs) = buf'"
    and "receive_analyse tc st mlc mlc buf' = Some (st', mlc', ltr')"
  shows "receive_loop tc st mlc (mlc - ml) ml buf (evs @ rest) =
         (if 0 < ltr' then receive_loop tc st' mlc' ltr' mlc buf' rest
          else if tc = RTU then Some (check_crc16 buf' mlc, buf')
          else Some (mlc, buf'))"
  using receive_loop_phase [OF assms(1-5), of tc st rest]
  unfolding assms(6) assms(7) by simp

lemma receive_msg_timeout_after_data:
  assumes "msg_length_computed \<noteq> MSG_LENGTH_UNDEFINED" and "data_only pre"
    and "int (length (received pre)) < msg_length_computed"
  shows "receive_msg tc msg_length_computed msg (pre @ Select_timed_out # events) =
         Some (if int (length (received pre))
                    = TAB_HEADER_LENGTH tc + 2 + TAB_CHECKSUM_LENGTH tc
               then MB_EXCEPTION else SELECT_TIMEOUT,
               store_bytes msg 0 (received pre))"
proof -
  have "receive_loop tc COMPLETE msg_length_computed (msg_length_computed - 0) 0 msg
          (pre @ Select_timed_out # events) =
        receive_loop tc COMPLETE msg_length_computed
          (msg_length_computed - (0 + int (length (received pre))))
          (0 + int (length (received pre))) (store_bytes msg (nat 0) (received pre))
          (Select_timed_out # events)"
    using assms(2,3) by (intro receive_loop_collect) simp_all
  with assms(1) show ?thesis by (simp add: receive_msg_def)
qed

text \<open>
  Claim C3, as the code has it. When the first wait expires with no byte received (after
  any number of interrupted waits), \<open>receive_msg\<close> returns \<open>SELECT_TIMEOUT\<close>, whatever
  the expected length and the transport: the macro compares the number of bytes received
  so far, which is 0. On the client path (a finite expected length), when a wait expires
  after \<open>n\<close> bytes have arrived, \<open>n\<close> less than the expected length, in any number of reads
  and with any interrupted waits in between, \<open>receive_msg\<close> returns \<open>MB_EXCEPTION\<close> if
  \<open>n\<close> is header + 2 + checksum (5 for RTU, 9 for TCP) and \<open>SELECT_TIMEOUT\<close> if it is
  not, and the buffer holds the \<open>n\<close> bytes.
\<close>

theorem receive_msg_timeouts:
  "receive_msg tc msg_length_computed msg
     (replicate k Select_interrupted @ Select_timed_out # events) = Some (SELECT_TIMEOUT, msg)
   \<and> (msg_length_computed \<noteq> MSG_LENGTH_UNDEFINED \<and> data_only pre
        \<and> int (length (received pre)) < msg_length_computed
      \<longrightarrow> receive_msg tc msg_length_computed msg (pre @ Select_timed_out # events) =
          Some (if int (length (received pre))
                     = TAB_HEADER_LENGTH tc + 2 + TAB_CHECKSUM_LENGTH tc
                then MB_EXCEPTION else SELECT_TIMEOUT,
                store_bytes msg 0 (received pre)))"
  using receive_msg_timeout_first receive_msg_timeout_after_data by blast

text \<open>
  A first wait that is interrupted and then expires; the exception frame of scenario S2
  arriving in two reads, with an interrupted wait between them, in place of a reply of 7
  bytes; and the first 3 bytes of that reply followed by silence.
\<close>

theorem receive_msg_timeouts_witness:
  "receive_msg RTU 5 [0, 0, 0, 0, 0, 0, 0] [Select_interrupted, Select_timed_out] =
     Some (SELECT_TIMEOUT, [0, 0, 0, 0, 0, 0, 0])
   \<and> (7 :: int) \<noteq> MSG_LENGTH_UNDEFINED
   \<and> data_only [Select_ready (Read_bytes [1, 0x83]), Select_interrupted,
                 Select_ready (Read_bytes [2, 0xC0, 0xF1])]
   \<and> int (length (received [Select_ready (Read_bytes [1, 0x83]), Select_interrupted,
                             Select_ready (Read_bytes [2, 0xC0, 0xF1])])) < 7
   \<and> receive_msg RTU 7 [0, 0, 0, 0, 0, 0, 0]
        [Select_ready (Read_bytes [1, 0x83]), Select_interrupted,
         Select_ready (Read_bytes [2, 0xC0, 0xF1]), Select_timed_out] =
      Some (MB_EXCEPTION, [1, 0x83, 2, 0xC0, 0xF1, 0, 0])
   \<and> data_only [Select_ready (Read_bytes [1, 3, 2])]
   \<and> int (length (received [Select_ready (Read_bytes [1, 3, 2])])) < 7
   \<and> receive_msg RTU 7 [0, 0, 0, 0, 0, 0, 0]
        [Select_ready (Read_bytes [1, 3, 2]), Select_timed_out] =
      Some (SELECT_TIMEOUT, [1, 3, 2, 0, 0, 0, 0])"
proof -
  let ?pre = "[Select_ready (Read_bytes [1, 0x83]), Select_interrupted,
               Select_ready (Read_bytes [2, 0xC0, 0xF1])]"
  let ?pre' = "[Select_ready (Read_bytes [1, 3, 2])]"
  have h: "(7 :: int) \<noteq> MSG_LENGTH_UNDEFINED \<and> data_only ?pre
     \<and> int (length (received ?pre)) < 7"
    by (simp add: MSG_LENGTH_UNDEFINED_def)
  have h': "data_only ?pre' \<and> int (length (received ?pre')) < 7"
    by simp
  from receive_msg_timeouts [of RTU 5 "[0, 0, 0, 0, 0, 0, 0]" 1 "[]"]
  have a: "receive_msg RTU 5 [0, 0, 0, 0, 0, 0, 0] [Select_interrupted, Select_timed_out] =
     Some (SELECT_TIMEOUT, [0, 0, 0, 0, 0, 0, 0])"
    by simp
  from receive_msg_timeouts [of RTU 7 "[0, 0, 0, 0, 0, 0, 0]" 0 "[]" ?pre] h
  have b: "receive_msg RTU 7 [0, 0, 0, 0, 0, 0, 0]
        [Select_ready (Read_bytes [1, 0x83]), Select_interrupted,
         Select_ready (Read_bytes [2, 0xC0, 0xF1]), Select_timed_out] =
      Some (MB_EXCEPTION, [1, 0x83, 2, 0xC0, 0xF1, 0, 0])"
    by (simp add: store_bytes_def geometry_defs)
  from receive_msg_timeouts [of RTU 7 "[0, 0, 0, 0, 0, 0, 0]" 0 "[]" ?pre'] h h'
  have c: "receive_msg RTU 7 [0, 0, 0, 0, 0, 0, 0]
        [Select_ready (Read_bytes [1, 3, 2]), Select_timed_out] =
      Some (SELECT_TIMEOUT, [1, 3, 2, 0, 0, 0, 0])"
    by (simp add: store_bytes_def geometry_defs)
  from a b c h h' show ?thesis by blast
qed

text \<open>
  The claim as stated: with an expected length of 5 in RTU, the exception-response length,
  a first wait that expires would return \<open>MB_EXCEPTION\<close>. It returns
  \<open>SELECT_TIMEOUT\<close>.
\<close>

theorem receive_msg_timeout_counterexample:
  "HEADER_LENGTH_RTU + 2 + CHECKSUM_LENGTH_RTU = 5
   \<and> receive_msg RTU 5 [0, 0, 0, 0, 0] [Select_timed_out] = Some (SELECT_TIMEOUT, [0, 0, 0, 0, 0])
   \<and> SELECT_TIMEOUT \<noteq> MB_EXCEPTION"
  by (simp add: receive_msg_def geometry_defs sentinel_defs MSG_LENGTH_UNDEFINED_def)

lemma check_crc16_cases: "check_crc16 m l = l \<or> check_crc16 m l = INVALID_CRC"
  by (simp add: check_crc16_def Let_def)

lemma check_crc16_nonneg: "0 \<le> check_crc16 m l \<Longrightarrow> check_crc16 m l = l"
  using check_crc16_cases [of m l] by (auto simp: INVALID_CRC_def)

lemma receive_loop_rtu_crc:
  "receive_loop tc st mlc ltr ml msg evs = Some (ret, msg') \<Longrightarrow> tc = RTU \<Longrightarrow> 0 \<le> ret
   \<Longrightarrow> check_crc16 msg' ret = ret"
proof (induction tc st mlc ltr ml msg evs rule: receive_loop.induct)
  case (1 tc state msg_length_computed length_to_read msg_length msg)
  then show ?case by simp
next
  case (2 tc state msg_length_computed length_to_read msg_length msg events)
  then show ?case by simp
next
  case (3 tc state msg_length_computed length_to_read msg_length msg events)
  then show ?case by (simp add: SELECT_FAILURE_def)
next
  case (4 tc state msg_length_computed length_to_read msg_length msg events)
  then show ?case by (simp add: MB_EXCEPTION_def SELECT_TIMEOUT_def split: if_splits)
next
  case (5 tc state msg_length_computed length_to_read msg_length msg events)
  then show ?case by (simp add: SOCKET_FAILURE_def)
next
  case (6 tc state msg_length_computed length_to_read msg_length msg bs events)
  let ?got = "take (nat length_to_read) bs"
  let ?msg = "store_bytes msg (nat msg_length) ?got"
  let ?len = "msg_length + int (length ?got)"
  from "6.prems"(1,3) have nonempty: "int (length ?got) \<noteq> 0"
    by (auto simp: Let_def CONNECTION_CLOSED_def split: if_splits)
  show ?case
  proof (cases "receive_analyse tc state msg_length_computed ?len ?msg")
    case None
    with "6.prems" nonempty show ?thesis
      by (simp add: Let_def INVALID_DATA_def)
  next
    case (Some x)
    obtain st' mlc' ltr' where x: "x = (st', mlc', ltr')" by (cases x)
    show ?thesis
    proof (cases "0 < ltr'")
      case True
      with "6.prems" nonempty Some x
      have "receive_loop tc st' mlc' ltr' ?len ?msg events = Some (ret, msg')"
        by (simp add: Let_def)
      with "6.IH" [OF refl refl _ refl refl Some x [symmetric] refl True] nonempty "6.prems"(2,3)
      show ?thesis by simp
    next
      case False
      with "6.prems" nonempty Some x
      have "ret = check_crc16 ?msg ?len" and "msg' = ?msg"
        by (auto simp: Let_def)
      with "6.prems"(3) check_crc16_nonneg [of ?msg ?len] show ?thesis by simp
    qed
  qed
qed

lemma receive_msg_rtu_crc:
  assumes "receive_msg RTU msg_length_computed msg events = Some (ret, msg')" and "0 \<le> ret"
  shows "check_crc16 msg' ret = ret"
proof (cases "msg_length_computed = MSG_LENGTH_UNDEFINED")
  case True
  with assms(1) have "receive_loop RTU FUNCTION (TAB_HEADER_LENGTH RTU + 1)
      (TAB_HEADER_LENGTH RTU + 1) 0 msg events = Some (ret, msg')"
    by (simp add: receive_msg_def)
  from receive_loop_rtu_crc [OF this refl assms(2)] show ?thesis .
next
  case False
  with assms(1) have "receive_loop RTU COMPLETE msg_length_computed msg_length_computed 0
      msg events = Some (ret, msg')"
    by (simp add: receive_msg_def)
  from receive_loop_rtu_crc [OF this refl assms(2)] show ?thesis .
qed

lemma receive_msg_tcp_client:
  assumes "data_only evs" and "0 < msg_length_computed"
    and "int (length (received evs)) = msg_length_computed"
  shows "receive_msg TCP msg_length_computed msg (evs @ events) =
         Some (msg_length_computed, store_bytes msg 0 (received evs))"
proof -
  have an: "receive_analyse TCP COMPLETE msg_length_computed msg_length_computed
              (store_bytes msg 0 (received evs)) = Some (COMPLETE, msg_length_computed, 0)"
    by (simp add: receive_analyse_def)
  have "receive_loop TCP COMPLETE msg_length_computed (msg_length_computed - 0) 0 msg
          (evs @ events) = Some (msg_length_computed, store_bytes msg 0 (received evs))"
    using assms by (subst receive_loop_phase_next [OF _ _ _ _ _ _ an]) simp_all
  with assms(2) show ?thesis by (simp add: receive_msg_def MSG_LENGTH_UNDEFINED_def)
qed

lemma byte_at_store_bytes_0:
  "0 \<le> i \<Longrightarrow> nat i < length bs \<Longrightarrow> byte_at (store_bytes buf 0 bs) i = byte_at bs i"
  by (simp add: byte_at_def store_bytes_def nth_append)

lemma compute_query_length_header_cases:
  "compute_query_length_header fn = 0 \<or> compute_query_length_header fn = 1
   \<or> compute_query_length_header fn = 4 \<or> compute_query_length_header fn = 5"
  by (simp add: compute_query_length_header_def)

lemma compute_query_length_data_store_bytes:
  assumes "int (length F) =
           HEADER_LENGTH_TCP + 1 + compute_query_length_header (byte_at F HEADER_LENGTH_TCP)"
    and "0 < compute_query_length_header (byte_at F HEADER_LENGTH_TCP)"
  shows "compute_query_length_data TCP (store_bytes buf 0 F) = compute_query_length_data TCP F"
proof -
  let ?fn = "byte_at F 7"
  from assms have len: "int (length F) = 8 + compute_query_length_header ?fn"
    and pos: "0 < compute_query_length_header ?fn"
    by (simp_all add: HEADER_LENGTH_TCP_def)
  from len pos have f: "byte_at (store_bytes buf 0 F) 7 = ?fn"
    by (intro byte_at_store_bytes_0) simp_all
  have a: "byte_at (store_bytes buf 0 F) 12 = byte_at F 12" if "?fn = 15 \<or> ?fn = 16"
    using that len
    by (intro byte_at_store_bytes_0) (auto simp: compute_query_length_header_def fc_defs)
  have b: "byte_at (store_bytes buf 0 F) 8 = byte_at F 8" if "?fn = 17"
    using that len
    by (intro byte_at_store_bytes_0) (auto simp: compute_query_length_header_def fc_defs)
  show ?thesis
    using a b by (auto simp: compute_query_length_data_def Let_def f fc_defs HEADER_LENGTH_TCP_def)
qed

lemma compute_query_length_data_no_header:
  assumes "compute_query_length_header (byte_at F HEADER_LENGTH_TCP) = 0"
  shows "compute_query_length_data TCP F = 0"
  using assms
  by (auto simp: compute_query_length_data_def compute_query_length_header_def Let_def fc_defs
      geometry_defs split: if_splits)

lemma receive_msg_tcp_server:
  assumes e1: "data_only evs_head"
    and n1: "int (length (received evs_head)) = HEADER_LENGTH_TCP + 1"
    and e2: "data_only evs_ext"
    and n2: "int (length (received evs_ext)) =
             compute_query_length_header (byte_at (received evs_head) HEADER_LENGTH_TCP)"
    and e3: "data_only evs_data"
    and n3: "int (length (received evs_data)) =
             compute_query_length_data TCP (received evs_head @ received evs_ext)"
    and mx: "int (length (received evs_head @ received evs_ext @ received evs_data))
             \<le> MAX_ADU_LENGTH_TCP"
  shows "receive_msg TCP MSG_LENGTH_UNDEFINED msg (evs_head @ evs_ext @ evs_data @ events) =
         Some (int (length (received evs_head @ received evs_ext @ received evs_data)),
               store_bytes msg 0 (received evs_head @ received evs_ext @ received evs_data))"
proof -
  define F1 where "F1 = received evs_head"
  define F2 where "F2 = received evs_ext"
  define F3 where "F3 = received evs_data"
  define h where "h = compute_query_length_header (byte_at F1 7)"
  define d where "d = compute_query_length_data TCP (F1 @ F2)"
  let ?b1 = "store_bytes msg 0 F1"
  let ?b2 = "store_bytes msg 0 (F1 @ F2)"
  let ?b3 = "store_bytes msg 0 (F1 @ F2 @ F3)"
  have l1: "int (length F1) = 8" using n1 by (simp add: F1_def HEADER_LENGTH_TCP_def)
  have l2: "int (length F2) = h"
    using n2 by (simp add: F1_def F2_def h_def HEADER_LENGTH_TCP_def)
  have l3: "int (length F3) = d" using n3 by (simp add: F1_def F2_def F3_def d_def)
  have mx': "8 + h + d \<le> 260" using mx l1 l2 l3
    by (simp add: F1_def F2_def F3_def MAX_ADU_LENGTH_TCP_def)
  have h0: "0 \<le> h" using l2 by simp
  have d0: "0 \<le> d" using l3 by simp
  have f1: "byte_at ?b1 7 = byte_at F1 7"
    using l1 by (intro byte_at_store_bytes_0) simp_all
  have an1: "receive_analyse TCP FUNCTION 8 8 ?b1 = Some (BYTE, 8 + h, h)"
    by (simp add: receive_analyse_def f1 h_def Let_def HEADER_LENGTH_TCP_def)
  have st1: "store_bytes msg (nat 0) (received evs_head) = ?b1" by (simp add: F1_def)
  have step1: "receive_loop TCP FUNCTION 8 (8 - 0) 0 msg
          (evs_head @ evs_ext @ evs_data @ events) =
        (if 0 < h then receive_loop TCP BYTE (8 + h) h 8 ?b1 (evs_ext @ evs_data @ events)
         else Some (8, ?b1))"
    using l1 by (subst receive_loop_phase_next [OF e1 _ _ _ _ st1 an1]) (simp_all add: F1_def)
  have start: "receive_msg TCP MSG_LENGTH_UNDEFINED msg
          (evs_head @ evs_ext @ evs_data @ events) =
        receive_loop TCP FUNCTION 8 (8 - 0) 0 msg (evs_head @ evs_ext @ evs_data @ events)"
    by (simp add: receive_msg_def HEADER_LENGTH_TCP_def)
  show ?thesis
  proof (cases "0 < h")
    case False
    with h0 have hz: "h = 0" by simp
    with l2 have F2: "F2 = []" by simp
    from hz have "compute_query_length_data TCP F1 = 0"
      by (intro compute_query_length_data_no_header) (simp add: h_def HEADER_LENGTH_TCP_def)
    with F2 l3 have F3: "F3 = []" by (simp add: d_def)
    from start step1 hz F2 F3 l1 show ?thesis
      by (simp add: F1_def [symmetric] F2_def [symmetric] F3_def [symmetric])
  next
    case True
    have l12: "int (length (F1 @ F2)) =
        HEADER_LENGTH_TCP + 1 + compute_query_length_header (byte_at (F1 @ F2) HEADER_LENGTH_TCP)"
      using l1 l2 by (simp add: h_def HEADER_LENGTH_TCP_def byte_at_def nth_append)
    have hp: "0 < compute_query_length_header (byte_at (F1 @ F2) HEADER_LENGTH_TCP)"
      using True l1 by (simp add: h_def HEADER_LENGTH_TCP_def byte_at_def nth_append)
    have dd: "compute_query_length_data TCP ?b2 = d"
      unfolding d_def by (rule compute_query_length_data_store_bytes [OF l12 hp])
    have an2: "receive_analyse TCP BYTE (8 + h) (8 + h) ?b2 = Some (COMPLETE, 8 + h + d, d)"
      using mx' by (simp add: receive_analyse_def dd Let_def MAX_ADU_LENGTH_TCP_def)
    have cap1: "nat 8 \<le> length ?b1"
      using length_store_bytes [of 0 msg F1] l1 by simp
    have st2: "store_bytes ?b1 (nat 8) (received evs_ext) = ?b2"
      using store_bytes_append [of 0 msg F1 F2] l1 by (simp add: F2_def)
    have step2: "receive_loop TCP BYTE (8 + h) (8 + h - 8) 8 ?b1 (evs_ext @ evs_data @ events) =
        (if 0 < d then receive_loop TCP COMPLETE (8 + h + d) d (8 + h) ?b2 (evs_data @ events)
         else Some (8 + h, ?b2))"
      using l2 True
      by (subst receive_loop_phase_next [OF e2 _ _ _ cap1 st2 an2]) (simp_all add: F2_def)
    show ?thesis
    proof (cases "0 < d")
      case False
      with d0 have dz: "d = 0" by simp
      with l3 have F3: "F3 = []" by simp
      from start step1 step2 True dz F3 l1 l2 show ?thesis
        by (simp add: F1_def [symmetric] F2_def [symmetric] F3_def [symmetric])
    next
      case d: True
      have an3: "receive_analyse TCP COMPLETE (8 + h + d) (8 + h + d) ?b3 =
          Some (COMPLETE, 8 + h + d, 0)"
        by (simp add: receive_analyse_def)
      have n8h: "nat (8 + h) = length (F1 @ F2)"
        using l1 l2 by (simp add: nat_add_distrib)
      have cap2: "nat (8 + h) \<le> length ?b2"
        unfolding n8h using length_store_bytes [of 0 msg "F1 @ F2"] by simp
      have st3: "store_bytes ?b2 (nat (8 + h)) (received evs_data) = ?b3"
        unfolding n8h using store_bytes_append [of 0 msg "F1 @ F2" F3] by (simp add: F3_def)
      have step3: "receive_loop TCP COMPLETE (8 + h + d) (8 + h + d - (8 + h)) (8 + h) ?b2
            (evs_data @ events) = Some (8 + h + d, ?b3)"
        using l3 d h0
        by (subst receive_loop_phase_next [OF e3 _ _ _ cap2 st3 an3]) (simp_all add: F3_def)
      from start step1 step2 step3 True d l1 l2 l3 show ?thesis
        by (simp add: F1_def [symmetric] F2_def [symmetric] F3_def [symmetric])
    qed
  qed
qed

text \<open>
  Claim C4, as the code has it. In RTU mode, on both receive paths, \<open>receive_msg\<close>
  returns a non-negative value only for a frame that passes \<open>check_crc16\<close>. In TCP mode
  it checks nothing, and the MBAP length field in the bytes 4 and 5 is not read. On the
  client path it returns the expected length as soon as that many bytes have arrived, in
  any number of reads and with any interrupted waits in between, whatever the bytes are.
  On the server path it returns the number of bytes of the query as soon as they have
  arrived, whatever the first 7 bytes are: the 8 bytes up to the function byte, then the
  bytes that \<open>compute_query_length_header\<close> asks for that function, then the bytes that
  \<open>compute_query_length_data\<close> asks for, each part in any number of reads, for a query
  no longer than \<open>MAX_ADU_LENGTH_TCP\<close>.
\<close>

theorem receive_msg_integrity:
  "(receive_msg RTU msg_length_computed msg events = Some (ret, msg') \<and> 0 \<le> ret
      \<longrightarrow> check_crc16 msg' ret = ret)
   \<and> (data_only evs \<and> 0 < msg_length_computed
        \<and> int (length (received evs)) = msg_length_computed
      \<longrightarrow> receive_msg TCP msg_length_computed msg (evs @ events) =
          Some (msg_length_computed, store_bytes msg 0 (received evs)))
   \<and> (data_only evs_head \<and> int (length (received evs_head)) = HEADER_LENGTH_TCP + 1
        \<and> data_only evs_ext
        \<and> int (length (received evs_ext)) =
            compute_query_length_header (byte_at (received evs_head) HEADER_LENGTH_TCP)
        \<and> data_only evs_data
        \<and> int (length (received evs_data)) =
            compute_query_length_data TCP (received evs_head @ received evs_ext)
        \<and> int (length (received evs_head @ received evs_ext @ received evs_data))
            \<le> MAX_ADU_LENGTH_TCP
      \<longrightarrow> receive_msg TCP MSG_LENGTH_UNDEFINED msg
            (evs_head @ evs_ext @ evs_data @ events) =
          Some (int (length (received evs_head @ received evs_ext @ received evs_data)),
                store_bytes msg 0 (received evs_head @ received evs_ext @ received evs_data)))"
  using receive_msg_rtu_crc receive_msg_tcp_client receive_msg_tcp_server by blast

text \<open>
  The reply of scenario S1 arriving in two reads; a TCP reply of 11 bytes whose MBAP
  length field says 65535, arriving in two reads with an interrupted wait between them;
  and a TCP query that writes one register, with the same length field, arriving in six
  reads.
\<close>

theorem receive_msg_integrity_witness:
  "receive_msg RTU 7 [0, 0, 0, 0, 0, 0, 0, 0]
     [Select_ready (Read_bytes [1, 3, 2, 0x12]), Select_ready (Read_bytes [0x34, 0xB5, 0x33])]
     = Some (7, [1, 3, 2, 0x12, 0x34, 0xB5, 0x33, 0])
   \<and> (0 :: int) \<le> 7
   \<and> check_crc16 [1, 3, 2, 0x12, 0x34, 0xB5, 0x33, 0] 7 = 7
   \<and> data_only [Select_ready (Read_bytes [0, 1, 0, 0, 0xFF]), Select_interrupted,
                 Select_ready (Read_bytes [0xFF, 1, 2, 2, 0x4D, 3])]
   \<and> (0 :: int) < 11
   \<and> int (length (received [Select_ready (Read_bytes [0, 1, 0, 0, 0xFF]), Select_interrupted,
                             Select_ready (Read_bytes [0xFF, 1, 2, 2, 0x4D, 3])])) = 11
   \<and> receive_msg TCP 11 [0, 0, 0, 0, 0, 0, 0, 0, 0, 0, 0, 0]
        [Select_ready (Read_bytes [0, 1, 0, 0, 0xFF]), Select_interrupted,
         Select_ready (Read_bytes [0xFF, 1, 2, 2, 0x4D, 3])]
       = Some (11, [0, 1, 0, 0, 0xFF, 0xFF, 1, 2, 2, 0x4D, 3, 0])
   \<and> data_only [Select_ready (Read_bytes [0, 1, 0, 0]),
                 Select_ready (Read_bytes [0xFF, 0xFF, 1, 0x10])]
   \<and> int (length (received [Select_ready (Read_bytes [0, 1, 0, 0]),
                             Select_ready (Read_bytes [0xFF, 0xFF, 1, 0x10])]))
       = HEADER_LENGTH_TCP + 1
   \<and> data_only [Select_interrupted, Select_ready (Read_bytes [0, 0, 0, 1, 2])]
   \<and> int (length (received [Select_interrupted, Select_ready (Read_bytes [0, 0, 0, 1, 2])]))
       = compute_query_length_header
           (byte_at (received [Select_ready (Read_bytes [0, 1, 0, 0]),
                               Select_ready (Read_bytes [0xFF, 0xFF, 1, 0x10])])
              HEADER_LENGTH_TCP)
   \<and> data_only [Select_ready (Read_bytes [0]), Select_ready (Read_bytes [0x2A])]
   \<and> int (length (received [Select_ready (Read_bytes [0]), Select_ready (Read_bytes [0x2A])]))
       = compute_query_length_data TCP
           (received [Select_ready (Read_bytes [0, 1, 0, 0]),
                      Select_ready (Read_bytes [0xFF, 0xFF, 1, 0x10])]
            @ received [Select_interrupted, Select_ready (Read_bytes [0, 0, 0, 1, 2])])
   \<and> int (length
          (received [Select_ready (Read_bytes [0, 1, 0, 0]),
                     Select_ready (Read_bytes [0xFF, 0xFF, 1, 0x10])]
           @ received [Select_interrupted, Select_ready (Read_bytes [0, 0, 0, 1, 2])]
           @ received [Select_ready (Read_bytes [0]), Select_ready (Read_bytes [0x2A])]))
       \<le> MAX_ADU_LENGTH_TCP
   \<and> receive_msg TCP MSG_LENGTH_UNDEFINED [0, 0, 0, 0, 0, 0, 0, 0, 0, 0, 0, 0, 0, 0, 0, 0]
        [Select_ready (Read_bytes [0, 1, 0, 0]), Select_ready (Read_bytes [0xFF, 0xFF, 1, 0x10]),
         Select_interrupted, Select_ready (Read_bytes [0, 0, 0, 1, 2]),
         Select_ready (Read_bytes [0]), Select_ready (Read_bytes [0x2A])]
       = Some (15, [0, 1, 0, 0, 0xFF, 0xFF, 1, 0x10, 0, 0, 0, 1, 2, 0, 0x2A, 0])"
proof -
  let ?evs = "[Select_ready (Read_bytes [0, 1, 0, 0, 0xFF]), Select_interrupted,
               Select_ready (Read_bytes [0xFF, 1, 2, 2, 0x4D, 3])]"
  let ?head = "[Select_ready (Read_bytes [0, 1, 0, 0]),
                Select_ready (Read_bytes [0xFF, 0xFF, 1, 0x10])]"
  let ?ext = "[Select_interrupted, Select_ready (Read_bytes [0, 0, 0, 1, 2])]"
  let ?data = "[Select_ready (Read_bytes [0]), Select_ready (Read_bytes [0x2A])]"
  have crc: "check_crc16 [1, 3, 2, 0x12, 0x34, 0xB5, 0x33, 0] 7 = 7"
    by (simp add: check_crc16_def crc16_def Let_def table_crc_hi_def table_crc_lo_def)
  have r: "receive_msg RTU 7 [0, 0, 0, 0, 0, 0, 0, 0]
     [Select_ready (Read_bytes [1, 3, 2, 0x12]), Select_ready (Read_bytes [0x34, 0xB5, 0x33])]
     = Some (7, [1, 3, 2, 0x12, 0x34, 0xB5, 0x33, 0])"
    by (simp add: receive_msg_def receive_analyse_def store_bytes_def Let_def crc
        MSG_LENGTH_UNDEFINED_def)
  have h: "data_only ?evs \<and> (0 :: int) < 11 \<and> int (length (received ?evs)) = 11"
    by simp
  have g: "data_only ?head \<and> int (length (received ?head)) = HEADER_LENGTH_TCP + 1
     \<and> data_only ?ext
     \<and> int (length (received ?ext)) =
         compute_query_length_header (byte_at (received ?head) HEADER_LENGTH_TCP)
     \<and> data_only ?data
     \<and> int (length (received ?data)) =
         compute_query_length_data TCP (received ?head @ received ?ext)
     \<and> int (length (received ?head @ received ?ext @ received ?data)) \<le> MAX_ADU_LENGTH_TCP"
    by (simp add: compute_query_length_header_def compute_query_length_data_def byte_at_def
        Let_def geometry_defs fc_defs)
  note t = receive_msg_integrity [of 7 "[0, 0, 0, 0, 0, 0, 0, 0]"
      "[Select_ready (Read_bytes [1, 3, 2, 0x12]), Select_ready (Read_bytes [0x34, 0xB5, 0x33])]"
      7 "[1, 3, 2, 0x12, 0x34, 0xB5, 0x33, 0]"]
  note u = receive_msg_integrity [where msg_length_computed = 11 and evs = ?evs
      and msg = "[0, 0, 0, 0, 0, 0, 0, 0, 0, 0, 0, 0]" and events = "[]"]
  note v = receive_msg_integrity [where evs_head = ?head and evs_ext = ?ext and evs_data = ?data
      and msg = "[0, 0, 0, 0, 0, 0, 0, 0, 0, 0, 0, 0, 0, 0, 0, 0]" and events = "[]"]
  from t r have a: "check_crc16 [1, 3, 2, 0x12, 0x34, 0xB5, 0x33, 0] 7 = 7" by simp
  from u h have b: "receive_msg TCP 11 [0, 0, 0, 0, 0, 0, 0, 0, 0, 0, 0, 0]
        [Select_ready (Read_bytes [0, 1, 0, 0, 0xFF]), Select_interrupted,
         Select_ready (Read_bytes [0xFF, 1, 2, 2, 0x4D, 3])]
       = Some (11, [0, 1, 0, 0, 0xFF, 0xFF, 1, 2, 2, 0x4D, 3, 0])"
    by (simp add: store_bytes_def)
  from v g have c: "receive_msg TCP MSG_LENGTH_UNDEFINED
        [0, 0, 0, 0, 0, 0, 0, 0, 0, 0, 0, 0, 0, 0, 0, 0]
        [Select_ready (Read_bytes [0, 1, 0, 0]), Select_ready (Read_bytes [0xFF, 0xFF, 1, 0x10]),
         Select_interrupted, Select_ready (Read_bytes [0, 0, 0, 1, 2]),
         Select_ready (Read_bytes [0]), Select_ready (Read_bytes [0x2A])]
       = Some (15, [0, 1, 0, 0, 0xFF, 0xFF, 1, 0x10, 0, 0, 0, 1, 2, 0, 0x2A, 0])"
    by (simp add: store_bytes_def)
  from r a b c h g show ?thesis by simp
qed

text \<open>
  The claim as stated: a TCP frame of 12 bytes whose MBAP length field says 65535, where
  6 bytes follow the field, is delivered as a success.
\<close>

theorem receive_msg_integrity_counterexample:
  "receive_msg TCP 12 [0, 0, 0, 0, 0, 0, 0, 0, 0, 0, 0, 0]
     [Select_ready (Read_bytes [0, 1, 0, 0, 0xFF, 0xFF, 1, 3, 0, 0, 0, 1])]
     = Some (12, [0, 1, 0, 0, 0xFF, 0xFF, 1, 3, 0, 0, 0, 1])
   \<and> (0 :: int) \<le> 12
   \<and> 256 * byte_at [0, 1, 0, 0, 0xFF, 0xFF, 1, 3, 0, 0, 0, 1] 4
        + byte_at [0, 1, 0, 0, 0xFF, 0xFF, 1, 3, 0, 0, 0, 1] 5 = 65535
   \<and> (65535 :: int) \<noteq> 12 - 6"
  by (simp add: receive_msg_def receive_analyse_def store_bytes_def Let_def byte_at_def
      MSG_LENGTH_UNDEFINED_def)

section \<open>Properties of the client\<close>

lemma modbus_receive_multiple_write:
  assumes "receive_msg tc (compute_response_length tc query data_type) response0 events =
             Some (ret, response)"
    and "0 \<le> ret"
    and "byte_at response (TAB_HEADER_LENGTH tc) = 0x0F
         \<or> byte_at response (TAB_HEADER_LENGTH tc) = 0x10"
  shows "modbus_receive tc query response0 data_type indeterminate events =
         Some (if 256 * byte_at query (TAB_HEADER_LENGTH tc + 3)
                    + byte_at query (TAB_HEADER_LENGTH tc + 4)
                  = 256 * byte_at response (TAB_HEADER_LENGTH tc + 3)
                    + byte_at response (TAB_HEADER_LENGTH tc + 4)
               then 256 * byte_at response (TAB_HEADER_LENGTH tc + 3)
                    + byte_at response (TAB_HEADER_LENGTH tc + 4)
               else INVALID_DATA, response)"
proof -
  from assms(3) have "modbus_receive_nb_values tc query response data_type indeterminate ret =
      (256 * byte_at query (TAB_HEADER_LENGTH tc + 3) + byte_at query (TAB_HEADER_LENGTH tc + 4),
       256 * byte_at response (TAB_HEADER_LENGTH tc + 3)
         + byte_at response (TAB_HEADER_LENGTH tc + 4))"
    unfolding modbus_receive_nb_values_def Let_def be16_or be16_add
    by (auto simp: fc_defs)
  with assms(1,2) show ?thesis
    by (simp add: modbus_receive_def)
qed

text \<open>
  Claim C6, as the code has it. For a framed reply whose function byte is 0x0F or 0x10,
  \<open>modbus_receive\<close> compares the quantity echoed by the response with the quantity of
  the request: it returns that quantity when they are equal and \<open>INVALID_DATA\<close> when
  they differ. The echoed address is not compared.
\<close>

theorem modbus_receive_write_multiple:
  "receive_msg tc (compute_response_length tc query data_type) response0 events =
      Some (ret, response)
   \<and> 0 \<le> ret
   \<and> (byte_at response (TAB_HEADER_LENGTH tc) = 0x0F
        \<or> byte_at response (TAB_HEADER_LENGTH tc) = 0x10)
   \<longrightarrow> modbus_receive tc query response0 data_type indeterminate events =
         Some (if 256 * byte_at query (TAB_HEADER_LENGTH tc + 3)
                    + byte_at query (TAB_HEADER_LENGTH tc + 4)
                  = 256 * byte_at response (TAB_HEADER_LENGTH tc + 3)
                    + byte_at response (TAB_HEADER_LENGTH tc + 4)
               then 256 * byte_at response (TAB_HEADER_LENGTH tc + 3)
                    + byte_at response (TAB_HEADER_LENGTH tc + 4)
               else INVALID_DATA, response)"
  using modbus_receive_multiple_write by blast

lemma receive_s4_reply:
  "receive_msg TCP 12 [0, 0, 0, 0, 0, 0, 0, 0, 0, 0, 0, 0] [Select_ready (Read_bytes [0, 1, 0, 0, 0, 6, 1, 0x0F, 0, 0x13, 0, 0x0A])] = Some (12, [0, 1, 0, 0, 0, 6, 1, 0x0F, 0, 0x13, 0, 0x0A])"
  by (simp add: receive_msg_def receive_analyse_def store_bytes_def Let_def
      MSG_LENGTH_UNDEFINED_def)

lemma length_s4_request: "compute_response_length TCP [0, 1, 0, 0, 0, 9, 1, 0x0F, 0, 0x13, 0, 0x0A, 2, 0xCD, 1] 3 = 12"
  by (simp add: compute_response_length_def byte_at_def Let_def fc_defs geometry_defs)

text \<open>
  Scenario S4 over TCP: ten coils written at the address 0x0013, and the echo that
  answers them.
\<close>

theorem modbus_receive_write_multiple_witness:
  "receive_msg TCP (compute_response_length TCP [0, 1, 0, 0, 0, 9, 1, 0x0F, 0, 0x13, 0, 0x0A, 2, 0xCD, 1] 3) [0, 0, 0, 0, 0, 0, 0, 0, 0, 0, 0, 0]
     [Select_ready (Read_bytes [0, 1, 0, 0, 0, 6, 1, 0x0F, 0, 0x13, 0, 0x0A])] = Some (12, [0, 1, 0, 0, 0, 6, 1, 0x0F, 0, 0x13, 0, 0x0A])
   \<and> (0 :: int) \<le> 12
   \<and> byte_at [0, 1, 0, 0, 0, 6, 1, 0x0F, 0, 0x13, 0, 0x0A] (TAB_HEADER_LENGTH TCP) = 0x0F
   \<and> modbus_receive TCP [0, 1, 0, 0, 0, 9, 1, 0x0F, 0, 0x13, 0, 0x0A, 2, 0xCD, 1] [0, 0, 0, 0, 0, 0, 0, 0, 0, 0, 0, 0] 3 0 [Select_ready (Read_bytes [0, 1, 0, 0, 0, 6, 1, 0x0F, 0, 0x13, 0, 0x0A])] = Some (10, [0, 1, 0, 0, 0, 6, 1, 0x0F, 0, 0x13, 0, 0x0A])"
proof -
  have r: "receive_msg TCP (compute_response_length TCP [0, 1, 0, 0, 0, 9, 1, 0x0F, 0, 0x13, 0, 0x0A, 2, 0xCD, 1] 3) [0, 0, 0, 0, 0, 0, 0, 0, 0, 0, 0, 0]
     [Select_ready (Read_bytes [0, 1, 0, 0, 0, 6, 1, 0x0F, 0, 0x13, 0, 0x0A])] = Some (12, [0, 1, 0, 0, 0, 6, 1, 0x0F, 0, 0x13, 0, 0x0A])"
    by (simp only: length_s4_request receive_s4_reply)
  have f: "byte_at [0, 1, 0, 0, 0, 6, 1, 0x0F, 0, 0x13, 0, 0x0A] (TAB_HEADER_LENGTH TCP) = 0x0F"
    by (simp add: byte_at_def geometry_defs)
  from modbus_receive_write_multiple [of TCP "[0, 1, 0, 0, 0, 9, 1, 0x0F, 0, 0x13, 0, 0x0A, 2, 0xCD, 1]" 3 "[0, 0, 0, 0, 0, 0, 0, 0, 0, 0, 0, 0]"
      "[Select_ready (Read_bytes [0, 1, 0, 0, 0, 6, 1, 0x0F, 0, 0x13, 0, 0x0A])]" 12 "[0, 1, 0, 0, 0, 6, 1, 0x0F, 0, 0x13, 0, 0x0A]" 0] r f
  have "modbus_receive TCP [0, 1, 0, 0, 0, 9, 1, 0x0F, 0, 0x13, 0, 0x0A, 2, 0xCD, 1] [0, 0, 0, 0, 0, 0, 0, 0, 0, 0, 0, 0] 3 0 [Select_ready (Read_bytes [0, 1, 0, 0, 0, 6, 1, 0x0F, 0, 0x13, 0, 0x0A])] = Some (10, [0, 1, 0, 0, 0, 6, 1, 0x0F, 0, 0x13, 0, 0x0A])"
    by (simp add: byte_at_def geometry_defs)
  with r f show ?thesis by simp
qed

text \<open>
  The claim as stated: a reply that echoes the address 0x0014 to a request for the address
  0x0013 would give \<open>INVALID_DATA\<close>. It is accepted, with the value 10.
\<close>

theorem modbus_receive_write_multiple_counterexample:
  "modbus_receive TCP [0, 1, 0, 0, 0, 9, 1, 0x0F, 0, 0x13, 0, 0x0A, 2, 0xCD, 1] [0, 0, 0, 0, 0, 0, 0, 0, 0, 0, 0, 0] 3 0 [Select_ready (Read_bytes [0, 1, 0, 0, 0, 6, 1, 0x0F, 0, 0x14, 0, 0x0A])] = Some (10, [0, 1, 0, 0, 0, 6, 1, 0x0F, 0, 0x14, 0, 0x0A])
   \<and> 256 * byte_at [0, 1, 0, 0, 0, 9, 1, 0x0F, 0, 0x13, 0, 0x0A, 2, 0xCD, 1] (TAB_HEADER_LENGTH TCP + 1)
        + byte_at [0, 1, 0, 0, 0, 9, 1, 0x0F, 0, 0x13, 0, 0x0A, 2, 0xCD, 1] (TAB_HEADER_LENGTH TCP + 2) = 0x13
   \<and> 256 * byte_at [0, 1, 0, 0, 0, 6, 1, 0x0F, 0, 0x14, 0, 0x0A] (TAB_HEADER_LENGTH TCP + 1)
        + byte_at [0, 1, 0, 0, 0, 6, 1, 0x0F, 0, 0x14, 0, 0x0A] (TAB_HEADER_LENGTH TCP + 2) = 0x14
   \<and> (10 :: int) \<noteq> INVALID_DATA"
proof -
  have r: "receive_msg TCP 12 [0, 0, 0, 0, 0, 0, 0, 0, 0, 0, 0, 0] [Select_ready (Read_bytes [0, 1, 0, 0, 0, 6, 1, 0x0F, 0, 0x14, 0, 0x0A])] = Some (12, [0, 1, 0, 0, 0, 6, 1, 0x0F, 0, 0x14, 0, 0x0A])"
    by (simp add: receive_msg_def receive_analyse_def store_bytes_def Let_def
        MSG_LENGTH_UNDEFINED_def)
  have "modbus_receive TCP [0, 1, 0, 0, 0, 9, 1, 0x0F, 0, 0x13, 0, 0x0A, 2, 0xCD, 1] [0, 0, 0, 0, 0, 0, 0, 0, 0, 0, 0, 0] 3 0 [Select_ready (Read_bytes [0, 1, 0, 0, 0, 6, 1, 0x0F, 0, 0x14, 0, 0x0A])] = Some (10, [0, 1, 0, 0, 0, 6, 1, 0x0F, 0, 0x14, 0, 0x0A])"
    unfolding modbus_receive_def Let_def length_s4_request r
    by (simp add: modbus_receive_nb_values_def byte_at_def geometry_defs fc_defs)
  then show ?thesis by (simp add: byte_at_def INVALID_DATA_def geometry_defs)
qed

text \<open>
  The exception branch of \<open>modbus_receive\<close>: once the CRC is right in RTU and the
  response carries the function of the request plus 0x80, the exception codes below 12 are
  returned negated and the others give \<open>INVALID_EXCEPTION_CODE\<close>.
\<close>

lemma modbus_receive_exception_codes:
  assumes "tc = RTU \<longrightarrow> 0 \<le> check_crc16 response EXCEPTION_RESPONSE_LENGTH_RTU"
    and "0x80 + byte_at query (TAB_HEADER_LENGTH tc) = byte_at response (TAB_HEADER_LENGTH tc)"
  shows "modbus_receive_exception tc query response ret =
         (if byte_at response (TAB_HEADER_LENGTH tc + 1) < 12
          then - byte_at response (TAB_HEADER_LENGTH tc + 1)
          else INVALID_EXCEPTION_CODE)"
proof (cases tc)
  case RTU
  with assms(1) have "\<not> check_crc16 response EXCEPTION_RESPONSE_LENGTH_RTU < 0" by simp
  with RTU assms(2) show ?thesis
    by (simp add: modbus_receive_exception_def Let_def NB_TAB_ERROR_MSG_def)
next
  case TCP
  with assms(2) show ?thesis
    by (simp add: modbus_receive_exception_def Let_def NB_TAB_ERROR_MSG_def)
qed

text \<open>
  Claim C5, at the exception code 0x00, which is outside 0x01..0x0B: the exception
  response \<open>83 00\<close> to a read of one holding register over TCP, cut short by the
  timeout that makes \<open>receive_msg\<close> return \<open>MB_EXCEPTION\<close>. The code returns
  \<open>- 0\<close>, which is 0 and not \<open>INVALID_EXCEPTION_CODE\<close>.
\<close>

theorem modbus_receive_exception_code_zero:
  "modbus_receive TCP [0, 1, 0, 0, 0, 6, 1, 3, 0, 0, 0, 1] [0, 0, 0, 0, 0, 0, 0, 0, 0, 0, 0, 0]
     3 0 [Select_ready (Read_bytes [0, 1, 0, 0, 0, 3, 1, 0x83, 0x00]), Select_timed_out]
     = Some (0, [0, 1, 0, 0, 0, 3, 1, 0x83, 0x00, 0, 0, 0])
   \<and> (0 :: int) \<noteq> INVALID_EXCEPTION_CODE"
proof -
  have l: "compute_response_length TCP [0, 1, 0, 0, 0, 6, 1, 3, 0, 0, 0, 1] 3 = 11"
    by (simp add: compute_response_length_def byte_at_def Let_def fc_defs geometry_defs)
  have r: "receive_msg TCP 11 [0, 0, 0, 0, 0, 0, 0, 0, 0, 0, 0, 0]
      [Select_ready (Read_bytes [0, 1, 0, 0, 0, 3, 1, 0x83, 0x00]), Select_timed_out]
      = Some (MB_EXCEPTION, [0, 1, 0, 0, 0, 3, 1, 0x83, 0x00, 0, 0, 0])"
    by (simp add: receive_msg_def receive_analyse_def store_bytes_def Let_def
        MSG_LENGTH_UNDEFINED_def geometry_defs)
  have e: "modbus_receive_exception TCP [0, 1, 0, 0, 0, 6, 1, 3, 0, 0, 0, 1]
      [0, 1, 0, 0, 0, 3, 1, 0x83, 0x00, 0, 0, 0] ret = 0" for ret
    by (simp add: modbus_receive_exception_def byte_at_def Let_def geometry_defs
        NB_TAB_ERROR_MSG_def)
  have neg: "\<not> 0 \<le> MB_EXCEPTION" by (simp add: MB_EXCEPTION_def)
  show ?thesis
    unfolding modbus_receive_def Let_def l r
    by (simp add: e neg INVALID_EXCEPTION_CODE_def)
qed

text \<open>
  The decoding of one value: the signed tags 0, 2 and 4 end in the assignment of the
  unsigned tags 1, 3 and 5.
\<close>

lemma read_registers_value_signed_as_unsigned:
  "read_registers_value response offset 0 data_dest i =
     read_registers_value response offset 1 data_dest i"
  "read_registers_value response offset 2 data_dest i =
     read_registers_value response offset 3 data_dest i"
  "read_registers_value response offset 4 data_dest i =
     read_registers_value response offset 5 data_dest i"
  by (simp_all add: read_registers_value_def)

text \<open>
  Claim C8, at the data type 0 (I8): a read of one holding register over TCP answered by
  the byte 0xFF. The claim asks for the sign extension, 0xFFFFFFFF; the code stores
  0x000000FF, the zero extension.
\<close>

theorem read_registers_int8:
  "read_registers \<lparr>slave = 1, type_com = TCP\<rparr> 0 0x03 0 1 [0] 0
     [0, 0, 0, 0, 0, 0, 0, 0, 0, 0, 0, 0] [0, 0, 0, 0, 0, 0, 0, 0, 0, 0, 0, 0] 0 12
     [Select_ready (Read_bytes [0, 1, 0, 0, 0, 4, 1, 3, 1, 0xFF])]
     = Some (1, [0x000000FF], 1)
   \<and> (scast (0xFF :: byte) :: 32 word) = 0xFFFFFFFF
   \<and> (0x000000FF :: 32 word) \<noteq> 0xFFFFFFFF"
proof -
  let ?z = "[0, 0, 0, 0, 0, 0, 0, 0, 0, 0, 0, 0 :: byte]"
  let ?q = "[0, 1, 0, 0, 0, 6, 1, 3, 0, 0, 0, 1 :: byte]"
  let ?r = "[0, 1, 0, 0, 0, 4, 1, 3, 1, 0xFF, 0, 0 :: byte]"
  have q: "build_query_basis \<lparr>slave = 1, type_com = TCP\<rparr> 0 0x03 0 1 ?z =
      (12, [0, 1, 0, 0, 0, 0, 1, 3, 0, 0, 0, 1], 1)"
    by (simp add: build_query_basis_def build_query_basis_tcp_def Let_def
        PRESET_QUERY_LENGTH_TCP_def)
  have s: "modbus_send TCP [0, 1, 0, 0, 0, 0, 1, 3, 0, 0, 0, 1] 12 12 = (12, ?q, ?q)"
    by (simp add: modbus_send_def set_message_length_tcp_def Let_def)
  have l: "compute_response_length TCP ?q 0 = 10"
    by (simp add: compute_response_length_def byte_at_def Let_def fc_defs geometry_defs)
  have rm: "receive_msg TCP 10 ?z [Select_ready (Read_bytes [0, 1, 0, 0, 0, 4, 1, 3, 1, 0xFF])]
      = Some (10, ?r)"
    by (simp add: receive_msg_def receive_analyse_def store_bytes_def Let_def
        MSG_LENGTH_UNDEFINED_def)
  have nb: "modbus_receive_nb_values TCP ?q ?r 0 0 10 = (1, 1)"
    by (simp add: modbus_receive_nb_values_def byte_at_def Let_def fc_defs geometry_defs)
  have r: "modbus_receive TCP ?q ?z 0 0
      [Select_ready (Read_bytes [0, 1, 0, 0, 0, 4, 1, 3, 1, 0xFF])] = Some (1, ?r)"
    unfolding modbus_receive_def Let_def l rm by (simp add: nb)
  have d: "read_registers_value ?r HEADER_LENGTH_TCP 0 [0] 0 = [0x000000FF]"
    by (simp add: read_registers_value_def geometry_defs)
  have "read_registers \<lparr>slave = 1, type_com = TCP\<rparr> 0 0x03 0 1 [0] 0 ?z ?z 0 12
     [Select_ready (Read_bytes [0, 1, 0, 0, 0, 4, 1, 3, 1, 0xFF])]
     = Some (1, [0x000000FF], 1)"
    unfolding read_registers_def Let_def q
    by (simp add: MAX_REGISTERS_def s r d)
  then show ?thesis by simp
qed

section \<open>Properties of the server\<close>

lemma header_length_cases: "TAB_HEADER_LENGTH tc = 1 \<or> TAB_HEADER_LENGTH tc = 7"
  by (cases tc) (simp_all add: geometry_defs)

lemma build_response_basis_fst: "fst (build_response_basis tc sft response) = TAB_HEADER_LENGTH tc + 1"
  by (cases tc)
    (simp_all add: build_response_basis_def build_response_basis_rtu_def
      build_response_basis_tcp_def PRESET_RESPONSE_LENGTH_RTU_def PRESET_RESPONSE_LENGTH_TCP_def
      geometry_defs)

lemma build_response_basis_length:
  "length (snd (build_response_basis tc sft response)) = length response"
  by (cases tc)
    (simp_all add: build_response_basis_def build_response_basis_rtu_def
      build_response_basis_tcp_def)

lemma build_response_basis_function:
  assumes "nat (TAB_HEADER_LENGTH tc) < length response"
  shows "snd (build_response_basis tc sft response) ! nat (TAB_HEADER_LENGTH tc) =
         of_int (sft_function sft)"
  using assms
  by (cases tc)
    (simp_all add: build_response_basis_def build_response_basis_rtu_def
      build_response_basis_tcp_def geometry_defs)

lemma response_exception_fst:
  "fst (response_exception tc sft code response) = TAB_HEADER_LENGTH tc + 2"
  using build_response_basis_fst [of tc "sft\<lparr>sft_function := sft_function sft + 0x80\<rparr>" response]
  by (simp add: response_exception_def Let_def split_beta)

lemma response_exception_function:
  assumes "nat (TAB_HEADER_LENGTH tc) + 1 < length response"
  shows "snd (response_exception tc sft code response) ! nat (TAB_HEADER_LENGTH tc) =
         of_int (sft_function sft + 0x80)"
proof -
  let ?sft = "sft\<lparr>sft_function := sft_function sft + 0x80\<rparr>"
  have "nat (TAB_HEADER_LENGTH tc) < length response" using assms by simp
  from build_response_basis_function [OF this, of ?sft]
  have f: "snd (build_response_basis tc ?sft response) ! nat (TAB_HEADER_LENGTH tc) =
      of_int (sft_function sft + 0x80)" by simp
  have neq: "nat (TAB_HEADER_LENGTH tc + 1) \<noteq> nat (TAB_HEADER_LENGTH tc)"
    using header_length_cases [of tc] by auto
  show ?thesis
    using f neq
    by (simp add: response_exception_def Let_def split_beta build_response_basis_fst)
qed

lemma response_exception_code:
  assumes "nat (TAB_HEADER_LENGTH tc) + 1 < length response"
  shows "snd (response_exception tc sft code response) ! nat (TAB_HEADER_LENGTH tc + 1) =
         of_int (- code)"
proof -
  have "nat (TAB_HEADER_LENGTH tc + 1) < length response"
    using assms header_length_cases [of tc] by auto
  then show ?thesis
    by (simp add: response_exception_def Let_def split_beta build_response_basis_fst
        build_response_basis_length)
qed

lemma modbus_send_sent_nth:
  assumes "0 \<le> i" and "i < n" and "i \<noteq> 4" and "i \<noteq> 5"
  shows "snd (snd (modbus_send tc r n w)) ! nat i = r ! nat i"
proof (cases tc)
  case RTU
  have "nat i \<noteq> nat n" "nat i \<noteq> nat (n + 1)" "nat i < nat (n + 2)"
    using assms by auto
  with RTU show ?thesis
    by (simp add: modbus_send_def Let_def)
next
  case TCP
  have "nat i \<noteq> 4" "nat i \<noteq> 5" "nat i < nat n"
    using assms by auto
  with TCP show ?thesis
    by (simp add: modbus_send_def set_message_length_tcp_def Let_def)
qed

lemma byte_at_eq_numeral:
  "byte_at buf i = k \<Longrightarrow> buf ! nat i = of_int k"
  by (auto simp: byte_at_def)

lemma address_mod:
  "(256 * byte_at q i + byte_at q j) mod 65536 = 256 * byte_at q i + byte_at q j"
  using byte_at_range [of q i] byte_at_range [of q j]
  by simp

lemma modbus_slave_manage_switch_illegal_address:
  assumes "byte_at query (TAB_HEADER_LENGTH tc) = fn"
    and "fn = 0x01 \<or> fn = 0x02 \<or> fn = 0x03 \<or> fn = 0x04 \<or> fn = 0x05 \<or> fn = 0x06
         \<or> fn = 0x0F \<or> fn = 0x10"
    and "256 * byte_at query (TAB_HEADER_LENGTH tc + 1) + byte_at query (TAB_HEADER_LENGTH tc + 2)
         + (if fn = 0x05 \<or> fn = 0x06 then 1
            else 256 * byte_at query (TAB_HEADER_LENGTH tc + 3)
                 + byte_at query (TAB_HEADER_LENGTH tc + 4))
         > (if fn = 0x01 \<or> fn = 0x05 \<or> fn = 0x0F then nb_coil_status mb_mapping
            else if fn = 0x02 then nb_input_status mb_mapping
            else if fn = 0x04 then nb_input_registers mb_mapping
            else nb_holding_registers mb_mapping)"
  shows "modbus_slave_manage_switch tc sft query query_length mb_mapping response0 =
         (mb_mapping, response_exception tc sft ILLEGAL_DATA_ADDRESS response0)"
  using assms(2)
proof (elim disjE)
  assume "fn = 0x01"
  with assms(1,3) show ?thesis
    unfolding modbus_slave_manage_switch_def Let_def be16_add
    by (simp add: fc_defs split_beta address_mod)
next
  assume "fn = 0x02"
  with assms(1,3) show ?thesis
    unfolding modbus_slave_manage_switch_def Let_def be16_add
    by (simp add: fc_defs split_beta address_mod)
next
  assume "fn = 0x03"
  with assms(1,3) show ?thesis
    unfolding modbus_slave_manage_switch_def Let_def be16_add
    by (simp add: fc_defs split_beta address_mod)
next
  assume "fn = 0x04"
  with assms(1,3) show ?thesis
    unfolding modbus_slave_manage_switch_def Let_def be16_add
    by (simp add: fc_defs split_beta address_mod)
next
  assume "fn = 0x05"
  with assms(1,3) show ?thesis
    unfolding modbus_slave_manage_switch_def Let_def be16_add
    by (simp add: fc_defs split_beta address_mod)
next
  assume "fn = 0x06"
  with assms(1,3) show ?thesis
    unfolding modbus_slave_manage_switch_def Let_def be16_add
    by (simp add: fc_defs split_beta address_mod)
next
  assume "fn = 0x0F"
  with assms(1,3) show ?thesis
    unfolding modbus_slave_manage_switch_def Let_def be16_add
    by (simp add: fc_defs split_beta address_mod)
next
  assume "fn = 0x10"
  with assms(1,3) show ?thesis
    unfolding modbus_slave_manage_switch_def Let_def be16_add
    by (simp add: fc_defs split_beta address_mod)
qed

lemma modbus_slave_manage_addressed:
  assumes "byte_at query (TAB_HEADER_LENGTH (type_com mb_param) - 1) = slave mb_param
           \<or> byte_at query (TAB_HEADER_LENGTH (type_com mb_param) - 1) = 0"
    and "sft = \<lparr>sft_slave = byte_at query (TAB_HEADER_LENGTH (type_com mb_param) - 1),
                sft_function = byte_at query (TAB_HEADER_LENGTH (type_com mb_param)),
                sft_t_id = (if type_com mb_param = TCP
                            then push_bit 8 (byte_at query 0) + byte_at query 1 else 0)\<rparr>"
    and "ql = (if type_com mb_param = TCP then query_length0
               else query_length0 - CHECKSUM_LENGTH_RTU)"
  shows "modbus_slave_manage mb_param query query_length0 mb_mapping response0 write_ret =
         (case modbus_slave_manage_switch (type_com mb_param) sft query ql
                 mb_mapping response0 of
            (mb_mapping', resp_length, response) \<Rightarrow>
              Some (mb_mapping',
                    snd (snd (modbus_send (type_com mb_param) response resp_length write_ret))))"
  using assms(1) unfolding assms(2,3)
  by (auto simp: modbus_slave_manage_def Let_def MODBUS_BROADCAST_ADDRESS_def split_beta)

lemma function_or_0x80:
  assumes "byte_at query i = fn"
    and "fn = 0x01 \<or> fn = 0x02 \<or> fn = 0x03 \<or> fn = 0x04 \<or> fn = 0x05 \<or> fn = 0x06
         \<or> fn = 0x0F \<or> fn = 0x10"
  shows "(of_int (fn + 0x80) :: byte) = (query ! nat i) OR 0x80"
  using assms(2) byte_at_eq_numeral [OF assms(1)]
  by (elim disjE) simp_all

text \<open>
  Claim C7. A query for this server (its unit byte is the server's or the broadcast
  address) with a function among the four reads and the four writes, in which address +
  quantity exceeds the length of the targeted array, is answered by a response whose
  function byte is the query's function byte OR 0x80, followed by the positive exception
  code of \<open>ILLEGAL_DATA_ADDRESS\<close>, 0x02, which lies in 0x01..0x0B. The length of an
  array is the field \<open>nb_\<dots>\<close> that \<^verbatim>\<open>modbus_mapping_new\<close> stores with it, and a
  single write (0x05, 0x06) addresses one element. The map is returned as it was. The
  local array \<open>response0\<close> must have room for the header and the two bytes.
\<close>

theorem modbus_slave_manage_illegal_address:
  assumes "offset = TAB_HEADER_LENGTH (type_com mb_param)"
    and "fn = byte_at query offset"
    and "address = 256 * byte_at query (offset + 1) + byte_at query (offset + 2)"
    and "quantity = (if fn = 0x05 \<or> fn = 0x06 then 1
                     else 256 * byte_at query (offset + 3) + byte_at query (offset + 4))"
    and "target_length = (if fn = 0x01 \<or> fn = 0x05 \<or> fn = 0x0F then nb_coil_status mb_mapping
                          else if fn = 0x02 then nb_input_status mb_mapping
                          else if fn = 0x04 then nb_input_registers mb_mapping
                          else nb_holding_registers mb_mapping)"
    and "byte_at query (offset - 1) = slave mb_param
         \<or> byte_at query (offset - 1) = MODBUS_BROADCAST_ADDRESS"
    and "fn = 0x01 \<or> fn = 0x02 \<or> fn = 0x03 \<or> fn = 0x04 \<or> fn = 0x05 \<or> fn = 0x06
         \<or> fn = 0x0F \<or> fn = 0x10"
    and "address + quantity > target_length"
    and "nat offset + 1 < length response0"
  shows "\<exists>sent. modbus_slave_manage mb_param query query_length mb_mapping response0 write_ret =
                  Some (mb_mapping, sent)
           \<and> sent ! nat offset = (query ! nat offset) OR 0x80
           \<and> sent ! nat (offset + 1) = of_int (- ILLEGAL_DATA_ADDRESS)
           \<and> of_int (- ILLEGAL_DATA_ADDRESS) = (0x02 :: byte)
           \<and> (0x01 :: byte) \<le> 0x02 \<and> (0x02 :: byte) \<le> 0x0B"
proof -
  let ?tc = "type_com mb_param"
  define sft where "sft = \<lparr>sft_slave = byte_at query (TAB_HEADER_LENGTH ?tc - 1),
                sft_function = byte_at query (TAB_HEADER_LENGTH ?tc),
                sft_t_id = (if ?tc = TCP
                            then push_bit 8 (byte_at query 0) + byte_at query 1 else 0)\<rparr>"
  define ql where "ql = (if ?tc = TCP then query_length
               else query_length - CHECKSUM_LENGTH_RTU)"
  have sft: "sft_function sft = byte_at query (TAB_HEADER_LENGTH ?tc)"
    by (simp add: sft_def)
  have addressed: "byte_at query (TAB_HEADER_LENGTH ?tc - 1) = slave mb_param
           \<or> byte_at query (TAB_HEADER_LENGTH ?tc - 1) = 0"
    using assms(6) unfolding assms(1) MODBUS_BROADCAST_ADDRESS_def .
  note manage = modbus_slave_manage_addressed [OF addressed sft_def ql_def,
      of mb_mapping response0 write_ret]
  have fn: "byte_at query (TAB_HEADER_LENGTH ?tc) = fn"
    using assms(1,2) by simp
  have viol: "256 * byte_at query (TAB_HEADER_LENGTH ?tc + 1)
         + byte_at query (TAB_HEADER_LENGTH ?tc + 2)
         + (if fn = 0x05 \<or> fn = 0x06 then 1
            else 256 * byte_at query (TAB_HEADER_LENGTH ?tc + 3)
                 + byte_at query (TAB_HEADER_LENGTH ?tc + 4))
         > (if fn = 0x01 \<or> fn = 0x05 \<or> fn = 0x0F then nb_coil_status mb_mapping
            else if fn = 0x02 then nb_input_status mb_mapping
            else if fn = 0x04 then nb_input_registers mb_mapping
            else nb_holding_registers mb_mapping)"
    using assms(8) unfolding assms(3,4,5) assms(1) .
  let ?e = "response_exception ?tc sft ILLEGAL_DATA_ADDRESS response0"
  let ?sent = "snd (snd (modbus_send ?tc (snd ?e) (fst ?e) write_ret))"
  have switch: "modbus_slave_manage_switch ?tc sft query ql mb_mapping response0 =
      (mb_mapping, ?e)"
    by (rule modbus_slave_manage_switch_illegal_address [OF fn assms(7) viol])
  have res: "modbus_slave_manage mb_param query query_length mb_mapping response0 write_ret =
      Some (mb_mapping, ?sent)"
    unfolding manage switch by (simp add: split_beta)
  have cap: "nat (TAB_HEADER_LENGTH ?tc) + 1 < length response0"
    using assms(9,1) by simp
  have off: "0 \<le> offset" "offset < fst ?e" "offset \<noteq> 4" "offset \<noteq> 5"
    "0 \<le> offset + 1" "offset + 1 < fst ?e" "offset + 1 \<noteq> 4" "offset + 1 \<noteq> 5"
    using header_length_cases [of ?tc] unfolding assms(1) response_exception_fst by auto
  have "?sent ! nat offset = snd ?e ! nat offset"
    by (rule modbus_send_sent_nth [OF off(1-4)])
  also have "\<dots> = of_int (fn + 0x80)"
    using response_exception_function [OF cap, of sft ILLEGAL_DATA_ADDRESS] sft fn assms(1)
    by simp
  also have "\<dots> = (query ! nat offset) OR 0x80"
    using function_or_0x80 [OF fn assms(7)] assms(1) by simp
  finally have a: "?sent ! nat offset = (query ! nat offset) OR 0x80" .
  have "?sent ! nat (offset + 1) = snd ?e ! nat (offset + 1)"
    by (rule modbus_send_sent_nth [OF off(5-8)])
  also have "\<dots> = of_int (- ILLEGAL_DATA_ADDRESS)"
    using response_exception_code [OF cap, of sft ILLEGAL_DATA_ADDRESS] assms(1) by simp
  finally have b: "?sent ! nat (offset + 1) = of_int (- ILLEGAL_DATA_ADDRESS)" .
  have c: "of_int (- ILLEGAL_DATA_ADDRESS) = (0x02 :: byte)"
    by (simp add: ILLEGAL_DATA_ADDRESS_def)
  have d: "(0x01 :: byte) \<le> 0x02" "(0x02 :: byte) \<le> 0x0B"
    by simp_all
  show ?thesis
  proof (intro exI conjI)
    show "modbus_slave_manage mb_param query query_length mb_mapping response0 write_ret =
      Some (mb_mapping, ?sent)" by (fact res)
  qed (fact a b c d)+
qed

text \<open>
  Scenario S2 over TCP: a read of one holding register at the address 0x00FF of a map with
  one holding register.
\<close>

theorem modbus_slave_manage_illegal_address_witness:
  "(7 :: int) = TAB_HEADER_LENGTH (type_com \<lparr>slave = 1, type_com = TCP\<rparr>)
   \<and> (3 :: int) = byte_at [0, 1, 0, 0, 0, 6, 1, 3, 0, 0xFF, 0, 1] 7
   \<and> byte_at [0, 1, 0, 0, 0, 6, 1, 3, 0, 0xFF, 0, 1] (7 - 1) = slave \<lparr>slave = 1, type_com = TCP\<rparr>
   \<and> 256 * byte_at [0, 1, 0, 0, 0, 6, 1, 3, 0, 0xFF, 0, 1] (7 + 1)
         + byte_at [0, 1, 0, 0, 0, 6, 1, 3, 0, 0xFF, 0, 1] (7 + 2)
       + (256 * byte_at [0, 1, 0, 0, 0, 6, 1, 3, 0, 0xFF, 0, 1] (7 + 3)
         + byte_at [0, 1, 0, 0, 0, 6, 1, 3, 0, 0xFF, 0, 1] (7 + 4)) > (1 :: int)
   \<and> (\<exists>sent. modbus_slave_manage \<lparr>slave = 1, type_com = TCP\<rparr>
          [0, 1, 0, 0, 0, 6, 1, 3, 0, 0xFF, 0, 1] 12
          \<lparr>nb_coil_status = 0, nb_input_status = 0, nb_input_registers = 0,
           nb_holding_registers = 1, tab_coil_status = [], tab_input_status = [],
           tab_input_registers = [], tab_holding_registers = [0x1234]\<rparr>
          [0, 0, 0, 0, 0, 0, 0, 0, 0, 0, 0, 0] 9 =
        Some (\<lparr>nb_coil_status = 0, nb_input_status = 0, nb_input_registers = 0,
               nb_holding_registers = 1, tab_coil_status = [], tab_input_status = [],
               tab_input_registers = [], tab_holding_registers = [0x1234]\<rparr>, sent)
        \<and> sent ! 7 = 0x83 \<and> sent ! 8 = 0x02)"
proof -
  let ?p = "\<lparr>slave = 1, type_com = TCP\<rparr>"
  let ?q = "[0, 1, 0, 0, 0, 6, 1, 3, 0, 0xFF, 0, 1 :: byte]"
  let ?m = "\<lparr>nb_coil_status = 0, nb_input_status = 0, nb_input_registers = 0,
           nb_holding_registers = 1, tab_coil_status = [], tab_input_status = [],
           tab_input_registers = [], tab_holding_registers = [0x1234]\<rparr>"
  let ?z = "[0, 0, 0, 0, 0, 0, 0, 0, 0, 0, 0, 0 :: byte]"
  have h1: "(7 :: int) = TAB_HEADER_LENGTH (type_com ?p)" by (simp add: geometry_defs)
  have h2: "(3 :: int) = byte_at ?q 7" by (simp add: byte_at_def)
  have h3: "(255 :: int) = 256 * byte_at ?q (7 + 1) + byte_at ?q (7 + 2)"
    by (simp add: byte_at_def)
  have h4: "(1 :: int) = (if (3 :: int) = 0x05 \<or> (3 :: int) = 0x06 then 1
                     else 256 * byte_at ?q (7 + 3) + byte_at ?q (7 + 4))"
    by (simp add: byte_at_def)
  have h5: "(1 :: int) = (if (3 :: int) = 0x01 \<or> (3 :: int) = 0x05 \<or> (3 :: int) = 0x0F
                          then nb_coil_status ?m
                          else if (3 :: int) = 0x02 then nb_input_status ?m
                          else if (3 :: int) = 0x04 then nb_input_registers ?m
                          else nb_holding_registers ?m)"
    by simp
  have h6: "byte_at ?q (7 - 1) = slave ?p \<or> byte_at ?q (7 - 1) = MODBUS_BROADCAST_ADDRESS"
    by (simp add: byte_at_def)
  have h7: "(3 :: int) = 0x01 \<or> (3 :: int) = 0x02 \<or> (3 :: int) = 0x03 \<or> (3 :: int) = 0x04
      \<or> (3 :: int) = 0x05 \<or> (3 :: int) = 0x06 \<or> (3 :: int) = 0x0F \<or> (3 :: int) = 0x10"
    by simp
  have h8: "(255 :: int) + 1 > 1" by simp
  have h9: "nat 7 + 1 < length ?z" by simp
  from modbus_slave_manage_illegal_address [OF h1 h2 h3 h4 h5 h6 h7 h8 h9, of 12 9]
  obtain sent where
    "modbus_slave_manage ?p ?q 12 ?m ?z 9 = Some (?m, sent)"
    "sent ! nat 7 = (?q ! nat 7) OR 0x80" "sent ! nat (7 + 1) = 0x02"
    by auto
  then have "modbus_slave_manage ?p ?q 12 ?m ?z 9 = Some (?m, sent)
      \<and> sent ! 7 = 0x83 \<and> sent ! 8 = 0x02"
    by (simp add: eval_nat_numeral)
  then have e: "\<exists>sent. modbus_slave_manage ?p ?q 12 ?m ?z 9 = Some (?m, sent)
      \<and> sent ! 7 = 0x83 \<and> sent ! 8 = 0x02" ..
  have g: "256 * byte_at ?q (7 + 1) + byte_at ?q (7 + 2)
       + (256 * byte_at ?q (7 + 3) + byte_at ?q (7 + 4)) > (1 :: int)"
    by (simp add: byte_at_def)
  have s: "byte_at ?q (7 - 1) = slave ?p" by (simp add: byte_at_def)
  from h1 h2 s g e show ?thesis by (intro conjI)
qed

text \<open>
  Claim C9, in RTU mode. The query \<open>01 11 00 2C 50\<close> (report slave id, for unit 1) is
  delivered by the server's receive path, and \<open>modbus_slave_manage\<close> then hands two bytes
  to the transport: \<open>FF FF\<close>, the CRC that \<open>modbus_send\<close> puts behind a response of
  length 0.
\<close>

theorem modbus_slave_manage_report_slave_id_rtu:
  "receive_msg RTU MSG_LENGTH_UNDEFINED [0, 0, 0, 0, 0, 0, 0, 0]
     [Select_ready (Read_bytes [1, 0x11]), Select_ready (Read_bytes [0]),
      Select_ready (Read_bytes [0x2C, 0x50])] =
     Some (5, [1, 0x11, 0, 0x2C, 0x50, 0, 0, 0])
   \<and> modbus_slave_manage \<lparr>slave = 1, type_com = RTU\<rparr> [1, 0x11, 0, 0x2C, 0x50, 0, 0, 0] 5
       \<lparr>nb_coil_status = 0, nb_input_status = 0, nb_input_registers = 0,
        nb_holding_registers = 1, tab_coil_status = [], tab_input_status = [],
        tab_input_registers = [], tab_holding_registers = [0x1234]\<rparr>
       [0, 0, 0, 0, 0, 0, 0, 0] 2 =
     Some (\<lparr>nb_coil_status = 0, nb_input_status = 0, nb_input_registers = 0,
            nb_holding_registers = 1, tab_coil_status = [], tab_input_status = [],
            tab_input_registers = [], tab_holding_registers = [0x1234]\<rparr>, [0xFF, 0xFF])"
proof -
  have crc: "check_crc16 [1, 0x11, 0, 0x2C, 0x50, 0, 0, 0] 5 = 5"
    by (simp add: check_crc16_def crc16_def Let_def table_crc_hi_def table_crc_lo_def)
  have r: "receive_msg RTU MSG_LENGTH_UNDEFINED [0, 0, 0, 0, 0, 0, 0, 0]
     [Select_ready (Read_bytes [1, 0x11]), Select_ready (Read_bytes [0]),
      Select_ready (Read_bytes [0x2C, 0x50])] =
     Some (5, [1, 0x11, 0, 0x2C, 0x50, 0, 0, 0])"
    by (simp add: receive_msg_def receive_analyse_def compute_query_length_header_def
        compute_query_length_data_def store_bytes_def byte_at_def Let_def fc_defs
        geometry_defs crc)
  have sw: "modbus_slave_manage_switch RTU sft [1, 0x11, 0, 0x2C, 0x50, 0, 0, 0] ql m
      [0, 0, 0, 0, 0, 0, 0, 0] = (m, 0, [0, 0, 0, 0, 0, 0, 0, 0])" for sft ql m
    by (simp add: modbus_slave_manage_switch_def Let_def byte_at_def fc_defs geometry_defs)
  have crc0: "crc16 [0, 0, 0, 0, 0, 0, 0, 0] 0 = 0xFFFF"
    by (simp add: crc16_def)
  have se: "modbus_send RTU [0, 0, 0, 0, 0, 0, 0, 0] 0 2 =
      (2, [0xFF, 0xFF, 0, 0, 0, 0, 0, 0], [0xFF, 0xFF])"
    by (simp add: modbus_send_def Let_def crc0)
  have m: "modbus_slave_manage \<lparr>slave = 1, type_com = RTU\<rparr> [1, 0x11, 0, 0x2C, 0x50, 0, 0, 0] 5
       \<lparr>nb_coil_status = 0, nb_input_status = 0, nb_input_registers = 0,
        nb_holding_registers = 1, tab_coil_status = [], tab_input_status = [],
        tab_input_registers = [], tab_holding_registers = [0x1234]\<rparr>
       [0, 0, 0, 0, 0, 0, 0, 0] 2 =
     Some (\<lparr>nb_coil_status = 0, nb_input_status = 0, nb_input_registers = 0,
            nb_holding_registers = 1, tab_coil_status = [], tab_input_status = [],
            tab_input_registers = [], tab_holding_registers = [0x1234]\<rparr>, [0xFF, 0xFF])"
    unfolding modbus_slave_manage_def Let_def
    by (simp add: sw se byte_at_def geometry_defs MODBUS_BROADCAST_ADDRESS_def)
  from r m show ?thesis by simp
qed

lemma take_2_update:
  assumes "2 \<le> length xs"
  shows "take 2 (xs[0 := a, 1 := b]) = [a, b]"
proof -
  from assms obtain x y zs where "xs = x # y # zs"
    by (cases xs; cases "tl xs") auto
  then show ?thesis by simp
qed

text \<open>
  The functions 0x07 and 0x11 leave \<^verbatim>\<open>resp_length\<close> at 0, and the function goes on to
  \<open>modbus_send\<close>: nothing is handed to the transport in TCP, the two bytes of the CRC of
  the empty message in RTU.
\<close>

lemma modbus_slave_manage_not_implemented:
  assumes "byte_at query (TAB_HEADER_LENGTH (type_com mb_param) - 1) = slave mb_param
           \<or> byte_at query (TAB_HEADER_LENGTH (type_com mb_param) - 1) = MODBUS_BROADCAST_ADDRESS"
    and "byte_at query (TAB_HEADER_LENGTH (type_com mb_param)) = 0x07
         \<or> byte_at query (TAB_HEADER_LENGTH (type_com mb_param)) = 0x11"
    and "2 \<le> length response0"
  shows "modbus_slave_manage mb_param query query_length mb_mapping response0 write_ret =
         Some (mb_mapping, if type_com mb_param = RTU then [0xFF, 0xFF] else [])"
proof -
  let ?tc = "type_com mb_param"
  have sw: "modbus_slave_manage_switch ?tc sft query ql mb_mapping response0 =
      (mb_mapping, 0, response0)" for sft ql
    using assms(2)
  proof
    assume "byte_at query (TAB_HEADER_LENGTH ?tc) = 0x07"
    then show ?thesis
      unfolding modbus_slave_manage_switch_def Let_def by (simp add: fc_defs)
  next
    assume "byte_at query (TAB_HEADER_LENGTH ?tc) = 0x11"
    then show ?thesis
      unfolding modbus_slave_manage_switch_def Let_def by (simp add: fc_defs)
  qed
  have crc0: "crc16 response0 0 = 0xFFFF"
    by (simp add: crc16_def)
  have se: "snd (snd (modbus_send ?tc response0 0 write_ret)) =
      (if ?tc = RTU then [0xFF, 0xFF] else [])"
    using take_2_update [OF assms(3), of "0xFF" "0xFF"]
    by (cases ?tc) (simp_all add: modbus_send_def Let_def crc0 split_beta)
  show ?thesis
    using assms(1) se
    unfolding modbus_slave_manage_def Let_def sw
    by (simp add: split_beta MODBUS_BROADCAST_ADDRESS_def)
qed

lemma word_of_byte_at: "(of_int (byte_at buf i) :: byte) = buf ! nat i"
  by (simp add: byte_at_def)

lemma modbus_slave_manage_switch_reads:
  assumes "byte_at query (TAB_HEADER_LENGTH tc) \<noteq> 0x05"
    and "byte_at query (TAB_HEADER_LENGTH tc) \<noteq> 0x06"
    and "byte_at query (TAB_HEADER_LENGTH tc) \<noteq> 0x0F"
    and "byte_at query (TAB_HEADER_LENGTH tc) \<noteq> 0x10"
  shows "fst (modbus_slave_manage_switch tc sft query ql mb_mapping response0) = mb_mapping"
  using assms
  unfolding modbus_slave_manage_switch_def Let_def
  by (simp add: fc_defs split_beta)

lemma memcpy_front_nth:
  assumes "i < n" and "i < length src"
  shows "memcpy dest 0 src 0 n ! i = src ! i"
  using assms by (simp add: memcpy_def nth_append)

lemma memcpy_before_nth:
  assumes "i < d" and "i < length dest"
  shows "memcpy dest d src s n ! i = dest ! i"
  using assms by (simp add: memcpy_def nth_append)

lemma modbus_slave_manage_switch_single:
  assumes "byte_at query (TAB_HEADER_LENGTH tc) = 0x05
           \<or> byte_at query (TAB_HEADER_LENGTH tc) = 0x06"
    and "nat (TAB_HEADER_LENGTH tc) < length query"
    and "TAB_HEADER_LENGTH tc < ql"
    and "modbus_slave_manage_switch tc sft query ql mb_mapping response0 = (m', n, r)"
  shows "m' = mb_mapping
         \<or> (TAB_HEADER_LENGTH tc < n
             \<and> r ! nat (TAB_HEADER_LENGTH tc) = query ! nat (TAB_HEADER_LENGTH tc))"
proof -
  have lt: "nat (TAB_HEADER_LENGTH tc) < nat ql"
    using assms(3) header_length_cases [of tc] by auto
  have copy: "memcpy response0 0 query 0 (nat ql) ! nat (TAB_HEADER_LENGTH tc) =
      query ! nat (TAB_HEADER_LENGTH tc)"
    by (rule memcpy_front_nth [OF lt assms(2)])
  from assms(1) show ?thesis
  proof
    assume "byte_at query (TAB_HEADER_LENGTH tc) = 0x05"
    with assms(3,4) copy show ?thesis
      unfolding modbus_slave_manage_switch_def Let_def
      by (auto simp: fc_defs split_beta split: if_splits)
  next
    assume "byte_at query (TAB_HEADER_LENGTH tc) = 0x06"
    with assms(3,4) copy show ?thesis
      unfolding modbus_slave_manage_switch_def Let_def
      by (auto simp: fc_defs split_beta split: if_splits)
  qed
qed

lemma modbus_slave_manage_switch_multiple:
  assumes "byte_at query (TAB_HEADER_LENGTH tc) = 0x0F
           \<or> byte_at query (TAB_HEADER_LENGTH tc) = 0x10"
    and "nat (TAB_HEADER_LENGTH tc) < length response0"
    and "sft_function sft = byte_at query (TAB_HEADER_LENGTH tc)"
    and "modbus_slave_manage_switch tc sft query ql mb_mapping response0 = (m', n, r)"
  shows "m' = mb_mapping
         \<or> (TAB_HEADER_LENGTH tc < n
             \<and> r ! nat (TAB_HEADER_LENGTH tc) = query ! nat (TAB_HEADER_LENGTH tc))"
proof -
  let ?b = "build_response_basis tc sft response0"
  have lt: "nat (TAB_HEADER_LENGTH tc) < nat (fst ?b)"
    using header_length_cases [of tc] by (auto simp: build_response_basis_fst)
  have len: "nat (TAB_HEADER_LENGTH tc) < length (snd ?b)"
    using assms(2) by (simp add: build_response_basis_length)
  have "memcpy (snd ?b) (nat (fst ?b)) query (nat (fst ?b)) 4 ! nat (TAB_HEADER_LENGTH tc) =
      snd ?b ! nat (TAB_HEADER_LENGTH tc)"
    by (rule memcpy_before_nth [OF lt len])
  also have "\<dots> = query ! nat (TAB_HEADER_LENGTH tc)"
    using build_response_basis_function [OF assms(2), of sft] assms(3)
    by (simp add: word_of_byte_at)
  finally have copy: "memcpy (snd ?b) (nat (fst ?b)) query (nat (fst ?b)) 4
      ! nat (TAB_HEADER_LENGTH tc) = query ! nat (TAB_HEADER_LENGTH tc)" .
  have n: "TAB_HEADER_LENGTH tc < fst ?b + 4"
    by (simp add: build_response_basis_fst)
  from assms(1) show ?thesis
  proof
    assume "byte_at query (TAB_HEADER_LENGTH tc) = 0x0F"
    with assms(4) copy n show ?thesis
      unfolding modbus_slave_manage_switch_def Let_def
      by (auto simp: fc_defs split_beta split: if_splits)
  next
    assume "byte_at query (TAB_HEADER_LENGTH tc) = 0x10"
    with assms(4) copy n show ?thesis
      unfolding modbus_slave_manage_switch_def Let_def
      by (auto simp: fc_defs split_beta split: if_splits)
  qed
qed

lemma modbus_slave_manage_switch_map:
  assumes "nat (TAB_HEADER_LENGTH tc) < length response0"
    and "nat (TAB_HEADER_LENGTH tc) < length query"
    and "TAB_HEADER_LENGTH tc < ql"
    and "sft_function sft = byte_at query (TAB_HEADER_LENGTH tc)"
    and "modbus_slave_manage_switch tc sft query ql mb_mapping response0 = (m', n, r)"
  shows "m' = mb_mapping
         \<or> ((byte_at query (TAB_HEADER_LENGTH tc) = 0x05
              \<or> byte_at query (TAB_HEADER_LENGTH tc) = 0x06
              \<or> byte_at query (TAB_HEADER_LENGTH tc) = 0x0F
              \<or> byte_at query (TAB_HEADER_LENGTH tc) = 0x10)
             \<and> TAB_HEADER_LENGTH tc < n
             \<and> r ! nat (TAB_HEADER_LENGTH tc) = query ! nat (TAB_HEADER_LENGTH tc))"
proof -
  let ?fn = "byte_at query (TAB_HEADER_LENGTH tc)"
  consider "?fn = 0x05 \<or> ?fn = 0x06" | "?fn = 0x0F \<or> ?fn = 0x10"
    | "?fn \<noteq> 0x05" "?fn \<noteq> 0x06" "?fn \<noteq> 0x0F" "?fn \<noteq> 0x10"
    by blast
  then show ?thesis
  proof cases
    case 1
    from modbus_slave_manage_switch_single [OF 1 assms(2,3,5)] 1 show ?thesis by blast
  next
    case 2
    from modbus_slave_manage_switch_multiple [OF 2 assms(1,4,5)] 2 show ?thesis by blast
  next
    case 3
    from modbus_slave_manage_switch_reads [OF 3, of sft ql mb_mapping response0] assms(5)
    show ?thesis by simp
  qed
qed

lemma write_function_or_0x80:
  assumes "byte_at query i = 0x05 \<or> byte_at query i = 0x06
           \<or> byte_at query i = 0x0F \<or> byte_at query i = 0x10"
  shows "(query ! nat i) OR 0x80 \<noteq> query ! nat i"
proof -
  from assms have "query ! nat i = 0x05 \<or> query ! nat i = 0x06
      \<or> query ! nat i = 0x0F \<or> query ! nat i = 0x10"
    using byte_at_eq_numeral [of query i] by auto
  then show ?thesis by (elim disjE) simp_all
qed

text \<open>
  Claim C10. When \<open>modbus_slave_manage\<close> answers with an exception response (the
  function byte of the response is the query's OR 0x80), the map is left as it was; and
  when the map is changed, the query is one of the four writes and the response carries
  the function byte of the query, a normal response. The query must hold its header, the
  function byte and the checksum, and \<open>response0\<close> must reach the function byte.
\<close>

theorem modbus_slave_manage_exception_keeps_map:
  assumes "offset = TAB_HEADER_LENGTH (type_com mb_param)"
    and "modbus_slave_manage mb_param query query_length mb_mapping response0 write_ret =
           Some (mb_mapping', sent)"
    and "nat offset < length response0"
    and "nat offset < length query"
    and "offset + TAB_CHECKSUM_LENGTH (type_com mb_param) < query_length"
  shows "(sent ! nat offset = (query ! nat offset) OR 0x80 \<longrightarrow> mb_mapping' = mb_mapping)
         \<and> (mb_mapping' \<noteq> mb_mapping \<longrightarrow>
              (byte_at query offset = 0x05 \<or> byte_at query offset = 0x06
               \<or> byte_at query offset = 0x0F \<or> byte_at query offset = 0x10)
              \<and> sent ! nat offset = query ! nat offset)"
proof -
  let ?tc = "type_com mb_param"
  define sft where "sft = \<lparr>sft_slave = byte_at query (TAB_HEADER_LENGTH ?tc - 1),
                sft_function = byte_at query (TAB_HEADER_LENGTH ?tc),
                sft_t_id = (if ?tc = TCP
                            then push_bit 8 (byte_at query 0) + byte_at query 1 else 0)\<rparr>"
  define ql where "ql = (if ?tc = TCP then query_length
               else query_length - CHECKSUM_LENGTH_RTU)"
  have sft: "sft_function sft = byte_at query (TAB_HEADER_LENGTH ?tc)"
    by (simp add: sft_def)
  have addressed: "byte_at query (TAB_HEADER_LENGTH ?tc - 1) = slave mb_param
           \<or> byte_at query (TAB_HEADER_LENGTH ?tc - 1) = 0"
  proof (rule ccontr)
    assume "\<not> ?thesis"
    then have "modbus_slave_manage mb_param query query_length mb_mapping response0 write_ret
        = None"
      by (simp add: modbus_slave_manage_def Let_def MODBUS_BROADCAST_ADDRESS_def)
    with assms(2) show False by simp
  qed
  note manage = modbus_slave_manage_addressed [OF addressed sft_def ql_def,
      of mb_mapping response0 write_ret]
  obtain m' n r where
    switch: "modbus_slave_manage_switch ?tc sft query ql mb_mapping response0 = (m', n, r)"
    by (cases "modbus_slave_manage_switch ?tc sft query ql mb_mapping response0")
  from assms(2) have m': "mb_mapping' = m'"
    and sent: "sent = snd (snd (modbus_send ?tc r n write_ret))"
    unfolding manage switch by simp_all
  have ql: "TAB_HEADER_LENGTH ?tc < ql"
    using assms(5) unfolding assms(1) ql_def by (cases ?tc) (simp_all add: geometry_defs)
  from modbus_slave_manage_switch_map [OF assms(3,4) [unfolded assms(1)] ql sft switch]
  consider "m' = mb_mapping"
    | "byte_at query (TAB_HEADER_LENGTH ?tc) = 0x05
         \<or> byte_at query (TAB_HEADER_LENGTH ?tc) = 0x06
         \<or> byte_at query (TAB_HEADER_LENGTH ?tc) = 0x0F
         \<or> byte_at query (TAB_HEADER_LENGTH ?tc) = 0x10"
      "TAB_HEADER_LENGTH ?tc < n"
      "r ! nat (TAB_HEADER_LENGTH ?tc) = query ! nat (TAB_HEADER_LENGTH ?tc)"
    by blast
  then show ?thesis
  proof cases
    case 1
    with m' show ?thesis by simp
  next
    case 2
    have off: "0 \<le> TAB_HEADER_LENGTH ?tc" "TAB_HEADER_LENGTH ?tc \<noteq> 4"
      "TAB_HEADER_LENGTH ?tc \<noteq> 5"
      using header_length_cases [of ?tc] by auto
    have "sent ! nat (TAB_HEADER_LENGTH ?tc) = r ! nat (TAB_HEADER_LENGTH ?tc)"
      unfolding sent by (rule modbus_send_sent_nth [OF off(1) 2(2) off(2,3)])
    with 2(3) have same: "sent ! nat offset = query ! nat offset"
      unfolding assms(1) by simp
    from write_function_or_0x80 [OF 2(1)]
    have "(query ! nat offset) OR 0x80 \<noteq> query ! nat offset"
      unfolding assms(1) .
    with same 2(1) show ?thesis unfolding assms(1) by simp
  qed
qed

lemma modbus_slave_manage_exception_example:
  "modbus_slave_manage \<lparr>slave = 1, type_com = TCP\<rparr> [0, 1, 0, 0, 0, 6, 1, 3, 0, 0xFF, 0, 1] 12
     \<lparr>nb_coil_status = 0, nb_input_status = 0, nb_input_registers = 0,
      nb_holding_registers = 1, tab_coil_status = [], tab_input_status = [],
      tab_input_registers = [], tab_holding_registers = [0x1234]\<rparr>
     [0, 0, 0, 0, 0, 0, 0, 0, 0, 0, 0, 0] 9 =
   Some (\<lparr>nb_coil_status = 0, nb_input_status = 0, nb_input_registers = 0,
          nb_holding_registers = 1, tab_coil_status = [], tab_input_status = [],
          tab_input_registers = [], tab_holding_registers = [0x1234]\<rparr>,
         [0, 1, 0, 0, 0, 3, 1, 0x83, 0x02])"
proof -
  have sw: "modbus_slave_manage_switch TCP
      \<lparr>sft_slave = 1, sft_function = 3, sft_t_id = 1\<rparr>
      [0, 1, 0, 0, 0, 6, 1, 3, 0, 0xFF, 0, 1] 12
      \<lparr>nb_coil_status = 0, nb_input_status = 0, nb_input_registers = 0,
       nb_holding_registers = 1, tab_coil_status = [], tab_input_status = [],
       tab_input_registers = [], tab_holding_registers = [0x1234]\<rparr>
      [0, 0, 0, 0, 0, 0, 0, 0, 0, 0, 0, 0] =
      (\<lparr>nb_coil_status = 0, nb_input_status = 0, nb_input_registers = 0,
        nb_holding_registers = 1, tab_coil_status = [], tab_input_status = [],
        tab_input_registers = [], tab_holding_registers = [0x1234]\<rparr>,
       9, [0, 1, 0, 0, 0, 0, 1, 0x83, 0x02, 0, 0, 0])"
    by (simp add: modbus_slave_manage_switch_def response_exception_def build_response_basis_def
        build_response_basis_tcp_def Let_def byte_at_def fc_defs geometry_defs
        PRESET_RESPONSE_LENGTH_TCP_def ILLEGAL_DATA_ADDRESS_def)
  have se: "modbus_send TCP [0, 1, 0, 0, 0, 0, 1, 0x83, 0x02, 0, 0, 0] 9 9 =
      (9, [0, 1, 0, 0, 0, 3, 1, 0x83, 0x02, 0, 0, 0], [0, 1, 0, 0, 0, 3, 1, 0x83, 0x02])"
    by (simp add: modbus_send_def set_message_length_tcp_def Let_def)
  show ?thesis
    unfolding modbus_slave_manage_def Let_def
    by (simp add: byte_at_def geometry_defs MODBUS_BROADCAST_ADDRESS_def sw se)
qed

lemma modbus_slave_manage_write_example:
  "modbus_slave_manage \<lparr>slave = 1, type_com = TCP\<rparr>
     [0, 1, 0, 0, 0, 6, 1, 6, 0, 0, 0x12, 0x34] 12
     \<lparr>nb_coil_status = 0, nb_input_status = 0, nb_input_registers = 0,
      nb_holding_registers = 1, tab_coil_status = [], tab_input_status = [],
      tab_input_registers = [], tab_holding_registers = [0]\<rparr>
     [0, 0, 0, 0, 0, 0, 0, 0, 0, 0, 0, 0] 12 =
   Some (\<lparr>nb_coil_status = 0, nb_input_status = 0, nb_input_registers = 0,
          nb_holding_registers = 1, tab_coil_status = [], tab_input_status = [],
          tab_input_registers = [], tab_holding_registers = [0x1234]\<rparr>,
         [0, 1, 0, 0, 0, 6, 1, 6, 0, 0, 0x12, 0x34])"
proof -
  have sw: "modbus_slave_manage_switch TCP
      \<lparr>sft_slave = 1, sft_function = 6, sft_t_id = 1\<rparr>
      [0, 1, 0, 0, 0, 6, 1, 6, 0, 0, 0x12, 0x34] 12
      \<lparr>nb_coil_status = 0, nb_input_status = 0, nb_input_registers = 0,
       nb_holding_registers = 1, tab_coil_status = [], tab_input_status = [],
       tab_input_registers = [], tab_holding_registers = [0]\<rparr>
      [0, 0, 0, 0, 0, 0, 0, 0, 0, 0, 0, 0] =
      (\<lparr>nb_coil_status = 0, nb_input_status = 0, nb_input_registers = 0,
        nb_holding_registers = 1, tab_coil_status = [], tab_input_status = [],
        tab_input_registers = [], tab_holding_registers = [0x1234]\<rparr>,
       12, [0, 1, 0, 0, 0, 6, 1, 6, 0, 0, 0x12, 0x34])"
    by (simp add: modbus_slave_manage_switch_def memcpy_def Let_def byte_at_def fc_defs
        geometry_defs)
  have se: "modbus_send TCP [0, 1, 0, 0, 0, 6, 1, 6, 0, 0, 0x12, 0x34] 12 12 =
      (12, [0, 1, 0, 0, 0, 6, 1, 6, 0, 0, 0x12, 0x34], [0, 1, 0, 0, 0, 6, 1, 6, 0, 0, 0x12, 0x34])"
    by (simp add: modbus_send_def set_message_length_tcp_def Let_def)
  show ?thesis
    unfolding modbus_slave_manage_def Let_def
    by (simp add: byte_at_def geometry_defs MODBUS_BROADCAST_ADDRESS_def sw se)
qed

text \<open>
  The exception response of scenario S2 over TCP, which leaves the map alone, and a write
  of 0x1234 to the holding register 0, which changes it and is echoed.
\<close>

theorem modbus_slave_manage_exception_keeps_map_witness:
  "modbus_slave_manage \<lparr>slave = 1, type_com = TCP\<rparr> [0, 1, 0, 0, 0, 6, 1, 3, 0, 0xFF, 0, 1] 12
     \<lparr>nb_coil_status = 0, nb_input_status = 0, nb_input_registers = 0,
      nb_holding_registers = 1, tab_coil_status = [], tab_input_status = [],
      tab_input_registers = [], tab_holding_registers = [0x1234]\<rparr>
     [0, 0, 0, 0, 0, 0, 0, 0, 0, 0, 0, 0] 9 =
   Some (\<lparr>nb_coil_status = 0, nb_input_status = 0, nb_input_registers = 0,
          nb_holding_registers = 1, tab_coil_status = [], tab_input_status = [],
          tab_input_registers = [], tab_holding_registers = [0x1234]\<rparr>,
         [0, 1, 0, 0, 0, 3, 1, 0x83, 0x02])
   \<and> [0, 1, 0, 0, 0, 3, 1, 0x83, 0x02 :: byte] ! 7
       = ([0, 1, 0, 0, 0, 6, 1, 3, 0, 0xFF, 0, 1] ! 7) OR 0x80
   \<and> modbus_slave_manage \<lparr>slave = 1, type_com = TCP\<rparr>
       [0, 1, 0, 0, 0, 6, 1, 6, 0, 0, 0x12, 0x34] 12
       \<lparr>nb_coil_status = 0, nb_input_status = 0, nb_input_registers = 0,
        nb_holding_registers = 1, tab_coil_status = [], tab_input_status = [],
        tab_input_registers = [], tab_holding_registers = [0]\<rparr>
       [0, 0, 0, 0, 0, 0, 0, 0, 0, 0, 0, 0] 12 =
     Some (\<lparr>nb_coil_status = 0, nb_input_status = 0, nb_input_registers = 0,
            nb_holding_registers = 1, tab_coil_status = [], tab_input_status = [],
            tab_input_registers = [], tab_holding_registers = [0x1234]\<rparr>,
           [0, 1, 0, 0, 0, 6, 1, 6, 0, 0, 0x12, 0x34])
   \<and> tab_holding_registers \<lparr>nb_coil_status = 0, nb_input_status = 0, nb_input_registers = 0,
        nb_holding_registers = 1, tab_coil_status = [], tab_input_status = [],
        tab_input_registers = [], tab_holding_registers = [0x1234 :: 16 word]\<rparr>
       \<noteq> tab_holding_registers \<lparr>nb_coil_status = 0, nb_input_status = 0,
        nb_input_registers = 0, nb_holding_registers = 1, tab_coil_status = [],
        tab_input_status = [], tab_input_registers = [], tab_holding_registers = [0]\<rparr>
   \<and> byte_at [0, 1, 0, 0, 0, 6, 1, 6, 0, 0, 0x12, 0x34] 7 = 0x06
   \<and> [0, 1, 0, 0, 0, 6, 1, 6, 0, 0, 0x12, 0x34 :: byte] ! 7
       = [0, 1, 0, 0, 0, 6, 1, 6, 0, 0, 0x12, 0x34] ! 7"
proof -
  let ?p = "\<lparr>slave = 1, type_com = TCP\<rparr>"
  let ?z = "[0, 0, 0, 0, 0, 0, 0, 0, 0, 0, 0, 0 :: byte]"
  have o: "(7 :: int) = TAB_HEADER_LENGTH (type_com ?p)" by (simp add: geometry_defs)
  have c: "nat 7 < length ?z" by simp
  have q1: "nat 7 < length [0, 1, 0, 0, 0, 6, 1, 3, 0, 0xFF, 0, 1 :: byte]" by simp
  have q2: "nat 7 < length [0, 1, 0, 0, 0, 6, 1, 6, 0, 0, 0x12, 0x34 :: byte]" by simp
  have l: "7 + TAB_CHECKSUM_LENGTH (type_com ?p) < 12" by (simp add: geometry_defs)
  note a = modbus_slave_manage_exception_keeps_map
    [OF o modbus_slave_manage_exception_example c q1 l]
  note b = modbus_slave_manage_exception_keeps_map
    [OF o modbus_slave_manage_write_example c q2 l]
  have m: "[0, 1, 0, 0, 0, 3, 1, 0x83, 0x02 :: byte] ! 7
       = ([0, 1, 0, 0, 0, 6, 1, 3, 0, 0xFF, 0, 1] ! 7) OR 0x80"
    by simp
  have d: "tab_holding_registers \<lparr>nb_coil_status = 0, nb_input_status = 0,
        nb_input_registers = 0, nb_holding_registers = 1, tab_coil_status = [],
        tab_input_status = [], tab_input_registers = [],
        tab_holding_registers = [0x1234 :: 16 word]\<rparr>
       \<noteq> tab_holding_registers \<lparr>nb_coil_status = 0, nb_input_status = 0,
        nb_input_registers = 0, nb_holding_registers = 1, tab_coil_status = [],
        tab_input_status = [], tab_input_registers = [], tab_holding_registers = [0]\<rparr>"
    by simp
  then have "\<lparr>nb_coil_status = 0, nb_input_status = 0,
        nb_input_registers = 0, nb_holding_registers = 1, tab_coil_status = [],
        tab_input_status = [], tab_input_registers = [],
        tab_holding_registers = [0x1234 :: 16 word]\<rparr>
       \<noteq> \<lparr>nb_coil_status = 0, nb_input_status = 0,
        nb_input_registers = 0, nb_holding_registers = 1, tab_coil_status = [],
        tab_input_status = [], tab_input_registers = [], tab_holding_registers = [0]\<rparr>"
    by simp
  with b have w: "(byte_at [0, 1, 0, 0, 0, 6, 1, 6, 0, 0, 0x12, 0x34] 7 = 0x05
      \<or> byte_at [0, 1, 0, 0, 0, 6, 1, 6, 0, 0, 0x12, 0x34] 7 = 0x06
      \<or> byte_at [0, 1, 0, 0, 0, 6, 1, 6, 0, 0, 0x12, 0x34] 7 = 0x0F
      \<or> byte_at [0, 1, 0, 0, 0, 6, 1, 6, 0, 0, 0x12, 0x34] 7 = 0x10)
     \<and> [0, 1, 0, 0, 0, 6, 1, 6, 0, 0, 0x12, 0x34 :: byte] ! nat 7
       = [0, 1, 0, 0, 0, 6, 1, 6, 0, 0, 0x12, 0x34] ! nat 7"
    by blast
  from w have f: "byte_at [0, 1, 0, 0, 0, 6, 1, 6, 0, 0, 0x12, 0x34] 7 = 0x06"
    by (simp add: byte_at_def)
  from a m have k: "\<lparr>nb_coil_status = 0, nb_input_status = 0, nb_input_registers = 0,
          nb_holding_registers = 1, tab_coil_status = [], tab_input_status = [],
          tab_input_registers = [], tab_holding_registers = [0x1234 :: 16 word]\<rparr>
      = \<lparr>nb_coil_status = 0, nb_input_status = 0, nb_input_registers = 0,
          nb_holding_registers = 1, tab_coil_status = [], tab_input_status = [],
          tab_input_registers = [], tab_holding_registers = [0x1234]\<rparr>"
    by simp
  from k f modbus_slave_manage_exception_example m modbus_slave_manage_write_example d
  show ?thesis by simp
qed

end
